theory Spec2Isabelle
  imports Complex_Main "HOL-Library.Monad_Syntax" "HOL-Library.Multiset"
begin

section \<open>Constrained Delaunay triangulation in 2D: the model\<close>

text \<open>
  The TypeScript module is embedded function by function, under the source's names.

  \<^item> A JavaScript \<open>number\<close> that holds a coordinate is a \<open>real\<close>. Every arithmetic
    operation of the source on coordinates rounds its exact result once; the rounding is the
    parameter \<open>fl\<close> of the model. \<open>fl = (\<lambda>x. x)\<close> is exact arithmetic and
    \<open>fl = binary64\<close> is IEEE 754 double precision, round to nearest, ties to even. The
    non-finite values (infinities, NaN) are not modelled.
  \<^item> A \<open>number\<close> that holds an index or a count is an \<open>int\<close> (the source uses \<open>-1\<close>
    as "none").
  \<^item> A computation that throws (a property read on \<open>undefined\<close>) or that never returns has
    the value \<open>None\<close>; \<open>Some v\<close> is a normal return of \<open>v\<close>.
\<close>

type_synonym Point = "real \<times> real"
type_synonym Edge = "int \<times> int"
type_synonym Triangle = "int \<times> int \<times> int"
type_synonym rounding = "real \<Rightarrow> real"

subsection \<open>Arithmetic on numbers\<close>

definition fadd :: "rounding \<Rightarrow> real \<Rightarrow> real \<Rightarrow> real" where
  "fadd fl x y = fl (x + y)"

definition fsub :: "rounding \<Rightarrow> real \<Rightarrow> real \<Rightarrow> real" where
  "fsub fl x y = fl (x - y)"

definition fmul :: "rounding \<Rightarrow> real \<Rightarrow> real \<Rightarrow> real" where
  "fmul fl x y = fl (x * y)"

definition fdiv :: "rounding \<Rightarrow> real \<Rightarrow> real \<Rightarrow> real" where
  "fdiv fl x y = fl (x / y)"

definition exact :: rounding where
  "exact x = x"

text \<open>Round to the nearest integer, ties to the even one.\<close>

definition round_even :: "real \<Rightarrow> int" where
  "round_even x =
     (let f = \<lfloor>x\<rfloor>; d = x - of_int f in
      if d < 1 / 2 then f
      else if 1 / 2 < d then f + 1
      else if even f then f else f + 1)"

text \<open>
  Rounding to a 53-bit significand with an unbounded exponent: the value IEEE 754 binary64
  arithmetic returns whenever the result neither overflows nor falls into the subnormal range.
\<close>

definition binary64 :: rounding where
  "binary64 x =
     (if x = 0 then 0
      else let e = \<lfloor>log 2 \<bar>x\<bar>\<rfloor>; u = 2 powr (of_int e - 52)
           in u * of_int (round_even (x / u)))"

text \<open>\<open>n >>> 1\<close>: the operand is taken modulo \<open>2^32\<close>, then shifted.\<close>

definition ushr1 :: "int \<Rightarrow> int" where
  "ushr1 n = (n mod 4294967296) div 2"

subsection \<open>Binary search bounds\<close>

text \<open>
  The five searches share one loop shape: \<open>l\<close>, \<open>h\<close> and the answer so far \<open>i\<close> are the
  loop's variables. The midpoint is \<open>(l + h) >>> 1\<close>, so the loops are not structurally
  terminating; each is a partial function whose value is \<open>None\<close> when the loop runs forever.
\<close>

partial_function (option) bsearchGe_loop ::
  "'a list \<Rightarrow> 'b \<Rightarrow> ('a \<Rightarrow> 'b \<Rightarrow> 'n::{zero,linorder}) \<Rightarrow> int \<Rightarrow> int \<Rightarrow> int \<Rightarrow> int option" where
  "bsearchGe_loop a y c l h i =
     (if l \<le> h then
        (let m = ushr1 (l + h); x = a ! nat m; p = c x y in
         if p \<ge> 0 then bsearchGe_loop a y c l (m - 1) m
         else bsearchGe_loop a y c (m + 1) h i)
      else Some i)"

declare bsearchGe_loop.simps [code]

definition bsearchGe :: "'a list \<Rightarrow> 'b \<Rightarrow> ('a \<Rightarrow> 'b \<Rightarrow> 'n::{zero,linorder}) \<Rightarrow> int option" where
  "bsearchGe a y c =
     (let l = 0; h = int (length a) - 1; i = h + 1 in bsearchGe_loop a y c l h i)"

partial_function (option) bsearchGt_loop ::
  "'a list \<Rightarrow> 'b \<Rightarrow> ('a \<Rightarrow> 'b \<Rightarrow> 'n::{zero,linorder}) \<Rightarrow> int \<Rightarrow> int \<Rightarrow> int \<Rightarrow> int option" where
  "bsearchGt_loop a y c l h i =
     (if l \<le> h then
        (let m = ushr1 (l + h); x = a ! nat m; p = c x y in
         if p > 0 then bsearchGt_loop a y c l (m - 1) m
         else bsearchGt_loop a y c (m + 1) h i)
      else Some i)"

declare bsearchGt_loop.simps [code]

definition bsearchGt :: "'a list \<Rightarrow> 'b \<Rightarrow> ('a \<Rightarrow> 'b \<Rightarrow> 'n::{zero,linorder}) \<Rightarrow> int option" where
  "bsearchGt a y c =
     (let l = 0; h = int (length a) - 1; i = h + 1 in bsearchGt_loop a y c l h i)"

partial_function (option) bsearchLt_loop ::
  "'a list \<Rightarrow> 'b \<Rightarrow> ('a \<Rightarrow> 'b \<Rightarrow> 'n::{zero,linorder}) \<Rightarrow> int \<Rightarrow> int \<Rightarrow> int \<Rightarrow> int option" where
  "bsearchLt_loop a y c l h i =
     (if l \<le> h then
        (let m = ushr1 (l + h); x = a ! nat m; p = c x y in
         if p < 0 then bsearchLt_loop a y c (m + 1) h m
         else bsearchLt_loop a y c l (m - 1) i)
      else Some i)"

declare bsearchLt_loop.simps [code]

definition bsearchLt :: "'a list \<Rightarrow> 'b \<Rightarrow> ('a \<Rightarrow> 'b \<Rightarrow> 'n::{zero,linorder}) \<Rightarrow> int option" where
  "bsearchLt a y c =
     (let l = 0; h = int (length a) - 1; i = l - 1 in bsearchLt_loop a y c l h i)"

partial_function (option) bsearchLe_loop ::
  "'a list \<Rightarrow> 'b \<Rightarrow> ('a \<Rightarrow> 'b \<Rightarrow> 'n::{zero,linorder}) \<Rightarrow> int \<Rightarrow> int \<Rightarrow> int \<Rightarrow> int option" where
  "bsearchLe_loop a y c l h i =
     (if l \<le> h then
        (let m = ushr1 (l + h); x = a ! nat m; p = c x y in
         if p \<le> 0 then bsearchLe_loop a y c (m + 1) h m
         else bsearchLe_loop a y c l (m - 1) i)
      else Some i)"

declare bsearchLe_loop.simps [code]

definition bsearchLe :: "'a list \<Rightarrow> 'b \<Rightarrow> ('a \<Rightarrow> 'b \<Rightarrow> 'n::{zero,linorder}) \<Rightarrow> int option" where
  "bsearchLe a y c =
     (let l = 0; h = int (length a) - 1; i = l - 1 in bsearchLe_loop a y c l h i)"

partial_function (option) bsearchEq_loop ::
  "'a list \<Rightarrow> 'b \<Rightarrow> ('a \<Rightarrow> 'b \<Rightarrow> 'n::{zero,linorder}) \<Rightarrow> int \<Rightarrow> int \<Rightarrow> int option" where
  "bsearchEq_loop a y c l h =
     (if l \<le> h then
        (let m = ushr1 (l + h); x = a ! nat m; p = c x y in
         if p = 0 then Some m
         else if p \<le> 0 then bsearchEq_loop a y c (m + 1) h
         else bsearchEq_loop a y c l (m - 1))
      else Some (- 1))"

declare bsearchEq_loop.simps [code]

definition bsearchEq :: "'a list \<Rightarrow> 'b \<Rightarrow> ('a \<Rightarrow> 'b \<Rightarrow> 'n::{zero,linorder}) \<Rightarrow> int option" where
  "bsearchEq a y c = (let l = 0; h = int (length a) - 1 in bsearchEq_loop a y c l h)"

subsection \<open>Geometry predicates\<close>

definition orient2d :: "rounding \<Rightarrow> Point \<Rightarrow> Point \<Rightarrow> Point \<Rightarrow> real" where
  "orient2d fl a b c =
     fsub fl (fmul fl (fsub fl (snd a) (snd c)) (fsub fl (fst b) (fst c)))
             (fmul fl (fsub fl (fst a) (fst c)) (fsub fl (snd b) (snd c)))"

definition inCircle :: "rounding \<Rightarrow> Point \<Rightarrow> Point \<Rightarrow> Point \<Rightarrow> Point \<Rightarrow> real" where
  "inCircle fl a b c d =
     (let adx = fsub fl (fst a) (fst d);
          ady = fsub fl (snd a) (snd d);
          bdx = fsub fl (fst b) (fst d);
          bdy = fsub fl (snd b) (snd d);
          cdx = fsub fl (fst c) (fst d);
          cdy = fsub fl (snd c) (snd d);
          abdet = fsub fl (fmul fl adx bdy) (fmul fl bdx ady);
          bcdet = fsub fl (fmul fl bdx cdy) (fmul fl cdx bdy);
          cadet = fsub fl (fmul fl cdx ady) (fmul fl adx cdy);
          alift = fadd fl (fmul fl adx adx) (fmul fl ady ady);
          blift = fadd fl (fmul fl bdx bdx) (fmul fl bdy bdy);
          clift = fadd fl (fmul fl cdx cdx) (fmul fl cdy cdy)
      in fadd fl (fadd fl (fmul fl alift bcdet) (fmul fl blift cadet)) (fmul fl clift abdet))"

text \<open>
  The signed area of the triangle \<open>a, b, c\<close> by the shoelace formula, with the \<open>x\<close> axis to
  the right and the \<open>y\<close> axis up: positive exactly when \<open>a, b, c\<close> turn counter-clockwise.
  It is the yardstick the orientation claim is measured against, not a function of the source.
\<close>

definition signed_area :: "Point \<Rightarrow> Point \<Rightarrow> Point \<Rightarrow> real" where
  "signed_area a b c =
     ((fst b - fst a) * (snd c - snd a) - (fst c - fst a) * (snd b - snd a)) / 2"

text \<open>\<open>points[i]\<close> followed by a read of a coordinate: throws when \<open>i\<close> is not an index.\<close>

definition getPoint :: "Point list \<Rightarrow> int \<Rightarrow> Point option" where
  "getPoint points i = (if 0 \<le> i \<and> i < int (length points) then Some (points ! nat i) else None)"

subsection \<open>Triangulation data structure\<close>

record Triangulation =
  stars :: "int list list"
  edges :: "Edge list"

definition newTriangulation :: "nat \<Rightarrow> Edge list \<Rightarrow> Triangulation" where
  "newTriangulation numVerts es = \<lparr>stars = replicate numVerts [], edges = es\<rparr>"

text \<open>\<open>this.stars[i]\<close> followed by a use of the list: throws when \<open>i\<close> is not an index.\<close>

definition getStar :: "int list list \<Rightarrow> int \<Rightarrow> int list option" where
  "getStar ss i = (if 0 \<le> i \<and> i < int (length ss) then Some (ss ! nat i) else None)"

definition compareLex :: "Edge \<Rightarrow> Edge \<Rightarrow> int" where
  "compareLex a b = (if fst a - fst b \<noteq> 0 then fst a - fst b else snd a - snd b)"

definition isConstraint :: "Triangulation \<Rightarrow> int \<Rightarrow> int \<Rightarrow> bool option" where
  "isConstraint T i j =
     do { k \<leftarrow> bsearchEq (edges T) (min i j, max i j) compareLex; Some (k \<ge> 0) }"

function removePair_loop :: "int list \<Rightarrow> int \<Rightarrow> int \<Rightarrow> nat \<Rightarrow> int list" where
  "removePair_loop list j k i =
     (if i < length list then
        if list ! (i - 1) = j \<and> list ! i = k then
          (let n = length list;
               l1 = list[i - 1 := list ! (n - 2)];
               l2 = l1[i := l1 ! (n - 1)]
           in take (n - 2) l2)
        else removePair_loop list j k (i + 2)
      else list)"
  by pat_completeness auto
termination
  by (relation "measure (\<lambda>(list, j, k, i). length list - i)") auto

declare removePair_loop.simps [simp del]

definition removePair :: "int list \<Rightarrow> int \<Rightarrow> int \<Rightarrow> int list" where
  "removePair list j k = removePair_loop list j k 1"

text \<open>One statement \<open>removePair(this.stars[v], j, k)\<close>, the star written back in place.\<close>

definition removeFromStar :: "int list list \<Rightarrow> int \<Rightarrow> int \<Rightarrow> int \<Rightarrow> int list list option" where
  "removeFromStar ss v j k =
     do { list \<leftarrow> getStar ss v; Some (ss[nat v := removePair list j k]) }"

text \<open>One statement \<open>this.stars[v].push(j, k)\<close>.\<close>

definition pushToStar :: "int list list \<Rightarrow> int \<Rightarrow> int \<Rightarrow> int \<Rightarrow> int list list option" where
  "pushToStar ss v j k =
     do { list \<leftarrow> getStar ss v; Some (ss[nat v := list @ [j, k]]) }"

definition removeTriangle :: "Triangulation \<Rightarrow> int \<Rightarrow> int \<Rightarrow> int \<Rightarrow> Triangulation option" where
  "removeTriangle T i j k =
     do { s1 \<leftarrow> removeFromStar (stars T) i j k;
          s2 \<leftarrow> removeFromStar s1 j k i;
          s3 \<leftarrow> removeFromStar s2 k i j;
          Some (T\<lparr>stars := s3\<rparr>) }"

definition addTriangle :: "Triangulation \<Rightarrow> int \<Rightarrow> int \<Rightarrow> int \<Rightarrow> Triangulation option" where
  "addTriangle T i j k =
     do { s1 \<leftarrow> pushToStar (stars T) i j k;
          s2 \<leftarrow> pushToStar s1 j k i;
          s3 \<leftarrow> pushToStar s2 k i j;
          Some (T\<lparr>stars := s3\<rparr>) }"

text \<open>The scan of \<open>opposite\<close> over the odd positions \<open>k = 1, 3, ...\<close> of a star.\<close>

fun opposite_scan :: "int list \<Rightarrow> int \<Rightarrow> int" where
  "opposite_scan (s # t # rest) j = (if t = j then s else opposite_scan rest j)"
| "opposite_scan _ j = - 1"

definition opposite :: "Triangulation \<Rightarrow> int \<Rightarrow> int \<Rightarrow> int option" where
  "opposite T j i = do { list \<leftarrow> getStar (stars T) i; Some (opposite_scan list j) }"

definition flip :: "Triangulation \<Rightarrow> int \<Rightarrow> int \<Rightarrow> Triangulation option" where
  "flip T i j =
     do { a \<leftarrow> opposite T i j;
          b \<leftarrow> opposite T j i;
          T1 \<leftarrow> removeTriangle T i j a;
          T2 \<leftarrow> removeTriangle T1 j i b;
          T3 \<leftarrow> addTriangle T2 i b a;
          addTriangle T3 j a b }"

text \<open>
  The inner loop of \<open>cells\<close> over the even positions \<open>j = 0, 2, ...\<close> of the star of \<open>i\<close>.
  On a star of odd length the last read \<open>list[j + 1]\<close> is \<open>undefined\<close>, \<open>Math.min\<close> is NaN
  and the comparison fails: nothing is pushed.
\<close>

fun cells_star :: "int \<Rightarrow> int list \<Rightarrow> Triangle list" where
  "cells_star i (s # t # rest) =
     (if i < min s t then [(i, s, t)] else []) @ cells_star i rest"
| "cells_star i _ = []"

definition cells :: "Triangulation \<Rightarrow> Triangle list" where
  "cells T = concat (map (\<lambda>i. cells_star (int i) (stars T ! i)) [0..<length (stars T)])"

subsection \<open>Monotone triangulation (sweep line)\<close>

definition EVENT_POINT :: int where "EVENT_POINT = 0"
definition EVENT_END :: int where "EVENT_END = 1"
definition EVENT_START :: int where "EVENT_START = 2"

text \<open>
  The fields \<open>a\<close>, \<open>b\<close>, \<open>idx\<close> of the two interfaces are prefixed (\<open>hull_\<close>, \<open>ev_\<close>).
  An element of a chain is a point index, or \<open>None\<close> for JavaScript's \<open>undefined\<close>:
  \<open>splitHulls\<close> reads the last element of a chain that may be empty and stores what it read.
\<close>

record PartialHull =
  hull_a :: Point
  hull_b :: Point
  hull_idx :: int
  lowerIds :: "int option list"
  upperIds :: "int option list"

record Event =
  ev_a :: Point
  ev_b :: "Point option"
  ev_type :: int
  ev_idx :: int

text \<open>\<open>x || y\<close> on numbers.\<close>

definition js_or :: "real \<Rightarrow> real \<Rightarrow> real" where
  "js_or x y = (if x \<noteq> 0 then x else y)"

definition compareEvent :: "rounding \<Rightarrow> Event \<Rightarrow> Event \<Rightarrow> real" where
  "compareEvent fl a b =
     (let d = js_or (fsub fl (fst (ev_a a)) (fst (ev_a b)))
                (js_or (fsub fl (snd (ev_a a)) (snd (ev_a b)))
                       (of_int (ev_type a - ev_type b)))
      in if d \<noteq> 0 then d
         else case (if ev_type a \<noteq> EVENT_POINT then ev_b a else None, ev_b b) of
                (Some ab, Some bb) \<Rightarrow>
                  (let d2 = orient2d fl (ev_a a) ab bb
                   in if d2 \<noteq> 0 then d2 else of_int (ev_idx a - ev_idx b))
              | _ \<Rightarrow> of_int (ev_idx a - ev_idx b))"

text \<open>
  \<open>Array.prototype.sort\<close> with a comparator: a stable sort, here by insertion. For a
  comparator that is a consistent order every stable sort returns the same array.
\<close>

fun insort_cmp :: "('a \<Rightarrow> 'a \<Rightarrow> 'n::{zero,linorder}) \<Rightarrow> 'a \<Rightarrow> 'a list \<Rightarrow> 'a list" where
  "insort_cmp c x [] = [x]"
| "insort_cmp c x (y # ys) = (if c x y < 0 then x # y # ys else y # insort_cmp c x ys)"

definition sort_cmp :: "('a \<Rightarrow> 'a \<Rightarrow> 'n::{zero,linorder}) \<Rightarrow> 'a list \<Rightarrow> 'a list" where
  "sort_cmp c xs = foldl (\<lambda>acc x. insort_cmp c x acc) [] xs"

definition testPoint :: "rounding \<Rightarrow> PartialHull \<Rightarrow> Point \<Rightarrow> real" where
  "testPoint fl ph p = orient2d fl (hull_a ph) (hull_b ph) p"

text \<open>\<open>hulls[i]\<close> followed by a read of a field: throws when \<open>i\<close> is not an index.\<close>

definition getHull :: "PartialHull list \<Rightarrow> int \<Rightarrow> PartialHull option" where
  "getHull hulls i = (if 0 \<le> i \<and> i < int (length hulls) then Some (hulls ! nat i) else None)"

text \<open>
  The two \<open>while\<close> loops of \<open>addPoint\<close>: \<open>m\<close> counts down, one triangle is pushed per step.
  The result is the triangle list and the final \<open>m\<close>.
\<close>

function addPoint_lower ::
  "rounding \<Rightarrow> Point list \<Rightarrow> int option list \<Rightarrow> Point \<Rightarrow> int \<Rightarrow> Triangle list \<Rightarrow> nat
     \<Rightarrow> (Triangle list \<times> nat) option" where
  "addPoint_lower fl points ids p idx cs m =
     (if m > 1 then
        (case (ids ! (m - 2), ids ! (m - 1)) of
           (Some u, Some v) \<Rightarrow>
             (case (getPoint points u, getPoint points v) of
                (Some pu, Some pv) \<Rightarrow>
                  if orient2d fl pu pv p > 0
                  then addPoint_lower fl points ids p idx (cs @ [(v, u, idx)]) (m - 1)
                  else Some (cs, m)
              | _ \<Rightarrow> None)
         | _ \<Rightarrow> None)
      else Some (cs, m))"
  by pat_completeness auto
termination
  by (relation "measure (\<lambda>(fl, points, ids, p, idx, cs, m). m)") auto

declare addPoint_lower.simps [simp del]

function addPoint_upper ::
  "rounding \<Rightarrow> Point list \<Rightarrow> int option list \<Rightarrow> Point \<Rightarrow> int \<Rightarrow> Triangle list \<Rightarrow> nat
     \<Rightarrow> (Triangle list \<times> nat) option" where
  "addPoint_upper fl points ids p idx cs m =
     (if m > 1 then
        (case (ids ! (m - 2), ids ! (m - 1)) of
           (Some u, Some v) \<Rightarrow>
             (case (getPoint points u, getPoint points v) of
                (Some pu, Some pv) \<Rightarrow>
                  if orient2d fl pu pv p < 0
                  then addPoint_upper fl points ids p idx (cs @ [(u, v, idx)]) (m - 1)
                  else Some (cs, m)
              | _ \<Rightarrow> None)
         | _ \<Rightarrow> None)
      else Some (cs, m))"
  by pat_completeness auto
termination
  by (relation "measure (\<lambda>(fl, points, ids, p, idx, cs, m). m)") auto

declare addPoint_upper.simps [simp del]

text \<open>The body of the \<open>for\<close> loop of \<open>addPoint\<close> for one hull.\<close>

definition addPoint_hull ::
  "rounding \<Rightarrow> Point list \<Rightarrow> Point \<Rightarrow> int \<Rightarrow> Triangle list \<Rightarrow> PartialHull
     \<Rightarrow> (Triangle list \<times> PartialHull) option" where
  "addPoint_hull fl points p idx cs ph =
     do { (cs1, m1) \<leftarrow> addPoint_lower fl points (lowerIds ph) p idx cs (length (lowerIds ph));
          let lower = take m1 (lowerIds ph) @ [Some idx];
          (cs2, m2) \<leftarrow> addPoint_upper fl points (upperIds ph) p idx cs1 (length (upperIds ph));
          let upper = take m2 (upperIds ph) @ [Some idx];
          Some (cs2, ph\<lparr>lowerIds := lower, upperIds := upper\<rparr>) }"

function addPoint_loop ::
  "rounding \<Rightarrow> Point list \<Rightarrow> Point \<Rightarrow> int \<Rightarrow> int \<Rightarrow> int \<Rightarrow> Triangle list \<Rightarrow> PartialHull list
     \<Rightarrow> (Triangle list \<times> PartialHull list) option" where
  "addPoint_loop fl points p idx i hi cs hulls =
     (if i < hi then
        (case getHull hulls i of
           None \<Rightarrow> None
         | Some ph \<Rightarrow>
             (case addPoint_hull fl points p idx cs ph of
                None \<Rightarrow> None
              | Some (cs', ph') \<Rightarrow>
                  addPoint_loop fl points p idx (i + 1) hi cs' (hulls[nat i := ph'])))
      else Some (cs, hulls))"
  by pat_completeness auto
termination
  by (relation "measure (\<lambda>(fl, points, p, idx, i, hi, cs, hulls). nat (hi - i))") auto

declare addPoint_loop.simps [simp del]

definition addPoint ::
  "rounding \<Rightarrow> Triangle list \<Rightarrow> PartialHull list \<Rightarrow> Point list \<Rightarrow> Point \<Rightarrow> int
     \<Rightarrow> (Triangle list \<times> PartialHull list) option" where
  "addPoint fl cs hulls points p idx =
     do { lo \<leftarrow> bsearchLt hulls p (testPoint fl);
          hi \<leftarrow> bsearchGt hulls p (testPoint fl);
          addPoint_loop fl points p idx lo hi cs hulls }"

text \<open>
  \<open>findSplit\<close> reads the fields \<open>a\<close>, \<open>b\<close> and \<open>idx\<close> of an edge event; they are passed as a
  triple. Start and end events are created with both end points.
\<close>

definition findSplit :: "rounding \<Rightarrow> PartialHull \<Rightarrow> Point \<times> Point \<times> int \<Rightarrow> real" where
  "findSplit fl ph edge =
     (case edge of (ea, eb, eidx) \<Rightarrow>
        (let d = (if fst (hull_a ph) < fst ea
                  then orient2d fl (hull_a ph) (hull_b ph) ea
                  else orient2d fl eb ea (hull_a ph))
         in if d \<noteq> 0 then d
            else (let d2 = (if fst eb < fst (hull_b ph)
                            then orient2d fl (hull_a ph) (hull_b ph) eb
                            else orient2d fl eb ea (hull_b ph))
                  in js_or d2 (of_int (hull_idx ph - eidx)))))"

definition splitHulls :: "rounding \<Rightarrow> PartialHull list \<Rightarrow> Point list \<Rightarrow> Event \<Rightarrow> PartialHull list option" where
  "splitHulls fl hulls points event =
     (case ev_b event of
        None \<Rightarrow> None
      | Some b \<Rightarrow>
          do { splitIdx \<leftarrow> bsearchLe hulls (ev_a event, b, ev_idx event) (findSplit fl);
               ph \<leftarrow> getHull hulls splitIdx;
               let upper = upperIds ph;
                   x = (if upper = [] then None else last upper);
                   hulls1 = hulls[nat splitIdx := ph\<lparr>upperIds := [x]\<rparr>];
                   new = \<lparr>hull_a = ev_a event, hull_b = b, hull_idx = ev_idx event,
                          lowerIds = [x], upperIds = upper\<rparr>
               in Some (take (nat splitIdx + 1) hulls1 @ [new] @ drop (nat splitIdx + 1) hulls1) })"

definition mergeHulls :: "rounding \<Rightarrow> PartialHull list \<Rightarrow> Point list \<Rightarrow> Event \<Rightarrow> PartialHull list option" where
  "mergeHulls fl hulls points event =
     (case ev_b event of
        None \<Rightarrow> None
      | Some b \<Rightarrow>
          do { mergeIdx \<leftarrow> bsearchEq hulls (b, ev_a event, ev_idx event) (findSplit fl);
               lower \<leftarrow> getHull hulls (mergeIdx - 1);
               upper \<leftarrow> getHull hulls mergeIdx;
               let hulls1 = hulls[nat (mergeIdx - 1) := lower\<lparr>upperIds := upperIds upper\<rparr>]
               in Some (take (nat mergeIdx) hulls1 @ drop (nat mergeIdx + 1) hulls1) })"

text \<open>The events of one constraint edge \<open>edges[i]\<close>; vertical edges get none.\<close>

definition edgeEvents :: "Point list \<Rightarrow> Edge \<Rightarrow> int \<Rightarrow> Event list option" where
  "edgeEvents points e i =
     do { a \<leftarrow> getPoint points (fst e);
          b \<leftarrow> getPoint points (snd e);
          Some (if fst a < fst b then
                  [\<lparr>ev_a = a, ev_b = Some b, ev_type = EVENT_START, ev_idx = i\<rparr>,
                   \<lparr>ev_a = b, ev_b = Some a, ev_type = EVENT_END, ev_idx = i\<rparr>]
                else if fst a > fst b then
                  [\<lparr>ev_a = b, ev_b = Some a, ev_type = EVENT_START, ev_idx = i\<rparr>,
                   \<lparr>ev_a = a, ev_b = Some b, ev_type = EVENT_END, ev_idx = i\<rparr>]
                else []) }"

fun allEdgeEvents :: "Point list \<Rightarrow> Edge list \<Rightarrow> int \<Rightarrow> Event list option" where
  "allEdgeEvents points [] i = Some []"
| "allEdgeEvents points (e # es) i =
     do { evs \<leftarrow> edgeEvents points e i;
          rest \<leftarrow> allEdgeEvents points es (i + 1);
          Some (evs @ rest) }"

definition pointEvents :: "Point list \<Rightarrow> Event list" where
  "pointEvents points =
     map (\<lambda>i. \<lparr>ev_a = points ! i, ev_b = None, ev_type = EVENT_POINT, ev_idx = int i\<rparr>)
       [0..<length points]"

text \<open>The body of the event loop.\<close>

definition processEvent ::
  "rounding \<Rightarrow> Point list \<Rightarrow> Triangle list \<times> PartialHull list \<Rightarrow> Event
     \<Rightarrow> (Triangle list \<times> PartialHull list) option" where
  "processEvent fl points st event =
     (case st of (cs, hulls) \<Rightarrow>
        if ev_type event = EVENT_POINT then addPoint fl cs hulls points (ev_a event) (ev_idx event)
        else if ev_type event = EVENT_START then
          do { hulls' \<leftarrow> splitHulls fl hulls points event; Some (cs, hulls') }
        else
          do { hulls' \<leftarrow> mergeHulls fl hulls points event; Some (cs, hulls') })"

fun processEvents ::
  "rounding \<Rightarrow> Point list \<Rightarrow> Triangle list \<times> PartialHull list \<Rightarrow> Event list
     \<Rightarrow> (Triangle list \<times> PartialHull list) option" where
  "processEvents fl points st [] = Some st"
| "processEvents fl points st (event # rest) =
     do { st' \<leftarrow> processEvent fl points st event; processEvents fl points st' rest }"

definition monotoneTriangulate :: "rounding \<Rightarrow> Point list \<Rightarrow> Edge list \<Rightarrow> Triangle list option" where
  "monotoneTriangulate fl points es =
     do { edgeEvs \<leftarrow> allEdgeEvents points es 0;
          let events = sort_cmp (compareEvent fl) (pointEvents points @ edgeEvs);
          first \<leftarrow> (case events of [] \<Rightarrow> None | e # _ \<Rightarrow> Some e);
          let x0 = fst (ev_a first);
          let minX = fsub fl x0 (fmul fl (fadd fl 1 \<bar>x0\<bar>) (1 / 4503599627370496));
          let hulls = [\<lparr>hull_a = (minX, 1), hull_b = (minX, 0), hull_idx = - 1,
                        lowerIds = [], upperIds = []\<rparr>];
          (cs, hulls') \<leftarrow> processEvents fl points ([], hulls) events;
          Some cs }"

subsection \<open>Delaunay refinement\<close>

text \<open>
  The work stack is a flat array of numbers, pushed and popped at its end; the model keeps
  the end of the array at the head of the list, so \<open>stack.push(a, b)\<close> is \<open>b # a # stack\<close>.
\<close>

text \<open>The \<open>y\<close> of the scan \<open>k = 1, 3, ...\<close> with its \<open>break\<close>, \<open>-1\<close> when nothing is found.\<close>

fun next_scan :: "int list \<Rightarrow> int \<Rightarrow> int" where
  "next_scan (s # t # rest) b = (if s = b then t else next_scan rest b)"
| "next_scan _ b = - 1"

definition testFlip ::
  "rounding \<Rightarrow> Point list \<Rightarrow> Triangulation \<Rightarrow> int list \<Rightarrow> int \<Rightarrow> int \<Rightarrow> int \<Rightarrow> int list option" where
  "testFlip fl points T stack a b x =
     do { y \<leftarrow> opposite T a b;
          if y < 0 then Some stack
          else
            (case (if b < a then (b, a, y, x) else (a, b, x, y)) of (a', b', x', y') \<Rightarrow>
               do { con \<leftarrow> isConstraint T a' b';
                    if con then Some stack
                    else
                      do { pa \<leftarrow> getPoint points a';
                           pb \<leftarrow> getPoint points b';
                           px \<leftarrow> getPoint points x';
                           py \<leftarrow> getPoint points y';
                           Some (if inCircle fl pa pb px py < 0 then b' # a' # stack else stack) } }) }"

text \<open>
  The first phase: the loop over \<open>j = 1, 3, ...\<close> of the star of \<open>a\<close>. The fourth argument is
  the whole star (read by the scan for \<open>y\<close>), the fifth what is left of it.
\<close>

fun refine_init_star ::
  "rounding \<Rightarrow> Point list \<Rightarrow> Triangulation \<Rightarrow> int \<Rightarrow> int list \<Rightarrow> int list \<Rightarrow> int list
     \<Rightarrow> int list option" where
  "refine_init_star fl points T a star (x # b # rest) stack =
     (if b < a then refine_init_star fl points T a star rest stack
      else
        do { con \<leftarrow> isConstraint T a b;
             if con then refine_init_star fl points T a star rest stack
             else
               (let y = next_scan star b in
                if y < 0 then refine_init_star fl points T a star rest stack
                else
                  do { pa \<leftarrow> getPoint points a;
                       pb \<leftarrow> getPoint points b;
                       px \<leftarrow> getPoint points x;
                       py \<leftarrow> getPoint points y;
                       refine_init_star fl points T a star rest
                         (if inCircle fl pa pb px py < 0 then b # a # stack else stack) }) })"
| "refine_init_star fl points T a star _ stack = Some stack"

fun refine_init_loop ::
  "rounding \<Rightarrow> Point list \<Rightarrow> Triangulation \<Rightarrow> nat list \<Rightarrow> int list \<Rightarrow> int list option" where
  "refine_init_loop fl points T [] stack = Some stack"
| "refine_init_loop fl points T (a # as) stack =
     do { star \<leftarrow> getStar (stars T) (int a);
          stack' \<leftarrow> refine_init_star fl points T (int a) star star stack;
          refine_init_loop fl points T as stack' }"

definition refine_init :: "rounding \<Rightarrow> Point list \<Rightarrow> Triangulation \<Rightarrow> int list option" where
  "refine_init fl points T = refine_init_loop fl points T [0..<length points] []"

text \<open>The scan of the main loop for \<open>x\<close> and \<open>y\<close>: a later match overwrites an earlier one.\<close>

fun scan_xy :: "int list \<Rightarrow> int \<Rightarrow> int \<times> int \<Rightarrow> int \<times> int" where
  "scan_xy (s # t # rest) b (x, y) =
     scan_xy rest b (if s = b then (x, t) else if t = b then (s, y) else (x, y))"
| "scan_xy _ b xy = xy"

text \<open>
  Whether the iteration that has popped \<open>b\<close> and \<open>a\<close> reaches \<open>triangulation.flip(a, b)\<close>,
  with the \<open>x\<close> and \<open>y\<close> it found.
\<close>

definition flip_test ::
  "rounding \<Rightarrow> Point list \<Rightarrow> Triangulation \<Rightarrow> int \<Rightarrow> int \<Rightarrow> (bool \<times> int \<times> int) option" where
  "flip_test fl points T a b =
     do { star \<leftarrow> getStar (stars T) a;
          (case scan_xy star b (- 1, - 1) of (x, y) \<Rightarrow>
             if x < 0 \<or> y < 0 then Some (False, x, y)
             else
               do { pa \<leftarrow> getPoint points a;
                    pb \<leftarrow> getPoint points b;
                    px \<leftarrow> getPoint points x;
                    py \<leftarrow> getPoint points y;
                    Some (\<not> (inCircle fl pa pb px py \<ge> 0), x, y) }) }"

text \<open>One iteration of the main loop, after the two pops.\<close>

definition refine_step ::
  "rounding \<Rightarrow> Point list \<Rightarrow> Triangulation \<Rightarrow> int \<Rightarrow> int \<Rightarrow> int list
     \<Rightarrow> (Triangulation \<times> int list) option" where
  "refine_step fl points T a b stack =
     do { (go, x, y) \<leftarrow> flip_test fl points T a b;
          if \<not> go then Some (T, stack)
          else
            do { T' \<leftarrow> flip T a b;
                 s1 \<leftarrow> testFlip fl points T' stack x a y;
                 s2 \<leftarrow> testFlip fl points T' s1 a y x;
                 s3 \<leftarrow> testFlip fl points T' s2 y b x;
                 s4 \<leftarrow> testFlip fl points T' s3 b x y;
                 Some (T', s4) } }"

text \<open>\<open>const b = stack.pop(); const a = stack.pop()\<close> on a stack that is not empty.\<close>

fun pop2 :: "int list \<Rightarrow> (int \<times> int \<times> int list) option" where
  "pop2 (b # a # rest) = Some (a, b, rest)"
| "pop2 _ = None"

text \<open>
  The main loop. It need not terminate (the flips can cycle), so it is a partial function.
  A stack of one element cannot arise; there the second pop would give \<open>undefined\<close> and the
  read of its star would throw.
\<close>

partial_function (option) refine_loop ::
  "rounding \<Rightarrow> Point list \<Rightarrow> Triangulation \<Rightarrow> int list \<Rightarrow> Triangulation option" where
  "refine_loop fl points T stack =
     (if stack = [] then Some T
      else
        do { (a, b, rest) \<leftarrow> pop2 stack;
             (T', stack') \<leftarrow> refine_step fl points T a b rest;
             refine_loop fl points T' stack' })"

declare refine_loop.simps [code]

definition delaunayRefine :: "rounding \<Rightarrow> Point list \<Rightarrow> Triangulation \<Rightarrow> Triangulation option" where
  "delaunayRefine fl points T =
     do { stack \<leftarrow> refine_init fl points T; refine_loop fl points T stack }"

subsection \<open>Face classification\<close>

record FaceIndex =
  fi_cells :: "Triangle list"
  fi_neighbor :: "int list"
  fi_constraint :: "bool list"
  fi_flags :: "int list"
  fi_active :: "int list"
  fi_next :: "int list"

definition compareCell :: "Triangle \<Rightarrow> Triangle \<Rightarrow> int" where
  "compareCell a b =
     (case (a, b) of ((a0, a1, a2), (b0, b1, b2)) \<Rightarrow>
        if a0 - b0 \<noteq> 0 then a0 - b0 else if a1 - b1 \<noteq> 0 then a1 - b1 else a2 - b2)"

definition locateCell :: "Triangle list \<Rightarrow> int \<Rightarrow> int \<Rightarrow> int \<Rightarrow> int option" where
  "locateCell cs a b c =
     (case (if b < c then (if b < a then (b, c, a) else (a, b, c))
            else if c < a then (c, a, b) else (a, b, c)) of
        (x, y, z) \<Rightarrow> if x < 0 then Some (- 1) else bsearchEq cs (x, y, z) compareCell)"

text \<open>The rotation \<open>indexCells\<close> applies to every cell in place.\<close>

definition canonicalCell :: "Triangle \<Rightarrow> Triangle" where
  "canonicalCell c =
     (case c of (x, y, z) \<Rightarrow>
        if y < z then (if y < x then (y, z, x) else (x, y, z))
        else if z < x then (z, x, y) else (x, y, z))"

definition cellVertex :: "Triangle \<Rightarrow> nat \<Rightarrow> int" where
  "cellVertex c j = (case c of (c0, c1, c2) \<Rightarrow> if j = 0 then c0 else if j = 1 then c1 else c2)"

text \<open>
  The body of the double loop of \<open>indexCells\<close> for the cell \<open>i\<close> and its edge \<open>j\<close>. The arrays
  \<open>neighbor\<close> and \<open>constraint\<close> are written at the positions \<open>3 * i + j\<close> in increasing order,
  which appends to them; \<open>active\<close> and \<open>next\<close> are stacks, kept head first as the work stack.
\<close>

definition indexCells_edge :: "Triangulation \<Rightarrow> FaceIndex \<Rightarrow> nat \<times> nat \<Rightarrow> FaceIndex option" where
  "indexCells_edge T ix ij =
     (case ij of (i, j) \<Rightarrow>
        (let c = fi_cells ix ! i; x = cellVertex c j; y = cellVertex c ((j + 1) mod 3) in
         do { opp \<leftarrow> opposite T y x;
              a \<leftarrow> locateCell (fi_cells ix) y x opp;
              b \<leftarrow> isConstraint T x y;
              let ix1 = ix\<lparr>fi_neighbor := fi_neighbor ix @ [a],
                           fi_constraint := fi_constraint ix @ [b]\<rparr>;
              Some (if a < 0 then
                      (if b then ix1\<lparr>fi_next := int i # fi_next ix1\<rparr>
                       else ix1\<lparr>fi_active := int i # fi_active ix1,
                                fi_flags := (fi_flags ix1)[i := 1]\<rparr>)
                    else ix1) }))"

fun indexCells_loop :: "Triangulation \<Rightarrow> FaceIndex \<Rightarrow> (nat \<times> nat) list \<Rightarrow> FaceIndex option" where
  "indexCells_loop T ix [] = Some ix"
| "indexCells_loop T ix (ij # rest) =
     do { ix' \<leftarrow> indexCells_edge T ix ij; indexCells_loop T ix' rest }"

definition indexCells :: "Triangulation \<Rightarrow> FaceIndex option" where
  "indexCells T =
     (let cs = sort_cmp compareCell (map canonicalCell (cells T));
          nc = length cs
      in indexCells_loop T
           \<lparr>fi_cells = cs, fi_neighbor = [], fi_constraint = [],
            fi_flags = replicate nc 0, fi_active = [], fi_next = []\<rparr>
           (concat (map (\<lambda>i. map (\<lambda>j. (i, j)) [0..<3]) [0..<nc])))"

text \<open>The \<open>for\<close> loop over the three edges of the popped cell \<open>t\<close>.\<close>

fun classify_edges ::
  "int \<Rightarrow> int list \<Rightarrow> bool list \<Rightarrow> nat \<Rightarrow> nat list \<Rightarrow> int list \<times> int list \<times> int list
     \<Rightarrow> int list \<times> int list \<times> int list" where
  "classify_edges side neighbor constraint t [] st = st"
| "classify_edges side neighbor constraint t (j # js) (flags, active, nxt) =
     (let f = neighbor ! (3 * t + j) in
      classify_edges side neighbor constraint t js
        (if f \<ge> 0 \<and> flags ! nat f = 0 then
           (if constraint ! (3 * t + j) then (flags, active, f # nxt)
            else (flags[nat f := side], f # active, nxt))
         else (flags, active, nxt)))"

text \<open>The inner \<open>while\<close> loop: it drains \<open>active\<close>.\<close>

partial_function (option) classify_active ::
  "int \<Rightarrow> int list \<Rightarrow> bool list \<Rightarrow> int list \<Rightarrow> int list \<Rightarrow> int list
     \<Rightarrow> (int list \<times> int list) option" where
  "classify_active side neighbor constraint flags active nxt =
     (case active of
        [] \<Rightarrow> Some (flags, nxt)
      | t # active' \<Rightarrow>
          if flags ! nat t = - side then
            classify_active side neighbor constraint flags active' nxt
          else
            do { (flags', active'', nxt') \<leftarrow>
                   Some (classify_edges side neighbor constraint (nat t) [0..<3]
                           (flags[nat t := side], active', nxt));
                 classify_active side neighbor constraint flags' active'' nxt' })"

declare classify_active.simps [code]

text \<open>The outer \<open>while\<close> loop with the swap of the two arrays and the change of side.\<close>

partial_function (option) classify_loop ::
  "int \<Rightarrow> int list \<Rightarrow> bool list \<Rightarrow> int list \<Rightarrow> int list \<Rightarrow> int list \<Rightarrow> int list option" where
  "classify_loop side neighbor constraint flags active nxt =
     (if active \<noteq> [] \<or> nxt \<noteq> [] then
        do { (flags', nxt') \<leftarrow> classify_active side neighbor constraint flags active nxt;
             classify_loop (- side) neighbor constraint flags' nxt' [] }
      else Some flags)"

declare classify_loop.simps [code]

definition classifyFaces :: "Triangulation \<Rightarrow> int \<Rightarrow> Triangle list option" where
  "classifyFaces T target =
     do { ix \<leftarrow> indexCells T;
          if target = 0 then Some (fi_cells ix)
          else
            do { flags \<leftarrow> classify_loop 1 (fi_neighbor ix) (fi_constraint ix)
                            (fi_flags ix) (fi_active ix) (fi_next ix);
                 Some (map fst (filter (\<lambda>(c, i). flags ! i = target)
                                  (zip (fi_cells ix) [0..<length (fi_cells ix)]))) } }"

subsection \<open>Main CDT function\<close>

definition canonicalizeEdge :: "Edge \<Rightarrow> Edge" where
  "canonicalizeEdge e = (min (fst e) (snd e), max (fst e) (snd e))"

definition canonicalizeEdges :: "Edge list \<Rightarrow> Edge list" where
  "canonicalizeEdges es = sort_cmp compareLex (map canonicalizeEdge es)"

text \<open>An option that is left out is \<open>None\<close>; \<open>options.delaunay !== false\<close> reads it.\<close>

record CDTOptions =
  delaunay :: "bool option"
  interior :: "bool option"
  exterior :: "bool option"

definition noOptions :: CDTOptions where
  "noOptions = \<lparr>delaunay = None, interior = None, exterior = None\<rparr>"

fun addTriangles :: "Triangulation \<Rightarrow> Triangle list \<Rightarrow> Triangulation option" where
  "addTriangles T [] = Some T"
| "addTriangles T ((f0, f1, f2) # fs) =
     do { T' \<leftarrow> addTriangle T f0 f1 f2; addTriangles T' fs }"

definition cdt2d ::
  "rounding \<Rightarrow> Point list \<Rightarrow> Edge list option \<Rightarrow> CDTOptions option \<Rightarrow> Triangle list option" where
  "cdt2d fl points edges_arg options_arg =
     (let es = (case edges_arg of None \<Rightarrow> [] | Some es \<Rightarrow> es);
          opts = (case options_arg of None \<Rightarrow> noOptions | Some opts \<Rightarrow> opts);
          dly = (delaunay opts \<noteq> Some False);
          inr = (interior opts \<noteq> Some False);
          ext = (exterior opts \<noteq> Some False)
      in if (\<not> inr \<and> \<not> ext) \<or> length points = 0 then Some []
         else
           do { cs \<leftarrow> monotoneTriangulate fl points es;
                if dly \<or> inr \<noteq> ext then
                  do { T0 \<leftarrow> addTriangles (newTriangulation (length points) (canonicalizeEdges es)) cs;
                       T \<leftarrow> (if dly then delaunayRefine fl points T0 else Some T0);
                       if \<not> ext then classifyFaces T (- 1)
                       else if \<not> inr then classifyFaces T 1
                       else Some (cells T) }
                else Some cs })"

subsection \<open>Point-in-polygon test and the centroid filter\<close>

text \<open>
  The loop of \<open>pointInPolygon\<close>: \<open>vj\<close> is the vertex \<open>polygon[j]\<close> before the current one,
  the list is what is left of the ring from \<open>polygon[i]\<close> on.
\<close>

fun pointInPolygon_loop :: "rounding \<Rightarrow> real \<Rightarrow> real \<Rightarrow> Point \<Rightarrow> Point list \<Rightarrow> bool \<Rightarrow> bool" where
  "pointInPolygon_loop fl x y vj [] inside = inside"
| "pointInPolygon_loop fl x y vj (vi # rest) inside =
     (let xi = fst vi; yi = snd vi; xj = fst vj; yj = snd vj in
      pointInPolygon_loop fl x y vi rest
        (if ((yi > y) \<noteq> (yj > y)) \<and>
            x < fadd fl (fdiv fl (fmul fl (fsub fl xj xi) (fsub fl y yi)) (fsub fl yj yi)) xi
         then \<not> inside else inside))"

definition pointInPolygon :: "rounding \<Rightarrow> Point \<Rightarrow> Point list \<Rightarrow> bool" where
  "pointInPolygon fl point polygon =
     (case polygon of
        [] \<Rightarrow> False
      | _ \<Rightarrow> pointInPolygon_loop fl (fst point) (snd point) (last polygon) polygon False)"

definition triangleCentroid :: "rounding \<Rightarrow> Point list \<Rightarrow> Triangle \<Rightarrow> Point option" where
  "triangleCentroid fl points tri =
     (case tri of (t0, t1, t2) \<Rightarrow>
        do { a \<leftarrow> getPoint points t0;
             b \<leftarrow> getPoint points t1;
             c \<leftarrow> getPoint points t2;
             Some (fdiv fl (fadd fl (fadd fl (fst a) (fst b)) (fst c)) 3,
                   fdiv fl (fadd fl (fadd fl (snd a) (snd b)) (snd c)) 3) })"

text \<open>The \<open>for\<close> loop over the holes with its early \<open>return false\<close>.\<close>

fun outsideHoles :: "rounding \<Rightarrow> Point \<Rightarrow> Point list list \<Rightarrow> bool" where
  "outsideHoles fl centroid [] = True"
| "outsideHoles fl centroid (hole # rest) =
     (if pointInPolygon fl centroid hole then False else outsideHoles fl centroid rest)"

text \<open>The callback of \<open>triangles.filter\<close>.\<close>

definition keepTriangle ::
  "rounding \<Rightarrow> Point list \<Rightarrow> Point list \<Rightarrow> Point list list option \<Rightarrow> Triangle \<Rightarrow> bool option" where
  "keepTriangle fl points boundary holes tri =
     do { centroid \<leftarrow> triangleCentroid fl points tri;
          Some (if \<not> pointInPolygon fl centroid boundary then False
                else (case holes of None \<Rightarrow> True | Some hs \<Rightarrow> outsideHoles fl centroid hs)) }"

fun filterTriangles_loop ::
  "rounding \<Rightarrow> Point list \<Rightarrow> Point list \<Rightarrow> Point list list option \<Rightarrow> Triangle list
     \<Rightarrow> Triangle list option" where
  "filterTriangles_loop fl points boundary holes [] = Some []"
| "filterTriangles_loop fl points boundary holes (tri # rest) =
     do { keep \<leftarrow> keepTriangle fl points boundary holes tri;
          kept \<leftarrow> filterTriangles_loop fl points boundary holes rest;
          Some (if keep then tri # kept else kept) }"

definition filterTriangles ::
  "rounding \<Rightarrow> Point list \<Rightarrow> Triangle list \<Rightarrow> Point list \<Rightarrow> Point list list option
     \<Rightarrow> Triangle list option" where
  "filterTriangles fl points triangles boundary holes =
     filterTriangles_loop fl points boundary holes triangles"

section \<open>Notions the claims are stated with\<close>

text \<open>
  These definitions are not functions of the source: they say what a claim means by
  "sorted with respect to a comparator", "the arithmetic mean" and the like.
\<close>

text \<open>An array in non-decreasing order with respect to a comparator.\<close>

definition sorted_by :: "('a \<Rightarrow> 'a \<Rightarrow> 'n::{zero,linorder}) \<Rightarrow> 'a list \<Rightarrow> bool" where
  "sorted_by c a = (\<forall>j < length a. \<forall>i \<le> j. c (a ! i) (a ! j) \<le> 0)"

text \<open>
  A consistent comparator, as \<open>Array.prototype.sort\<close> asks for one: the sign of \<open>c x y\<close>
  is opposite to the sign of \<open>c y x\<close>, and "not greater" is transitive.
\<close>

definition consistent :: "('a \<Rightarrow> 'a \<Rightarrow> 'n::{zero,linorder}) \<Rightarrow> bool" where
  "consistent c = ((\<forall>x y. c x y \<ge> 0 \<longrightarrow> c y x \<le> 0) \<and>
                   (\<forall>x y. c x y \<le> 0 \<longrightarrow> c y x \<ge> 0) \<and>
                   (\<forall>x y z. c x y \<le> 0 \<and> c y z \<le> 0 \<longrightarrow> c x z \<le> 0))"

text \<open>The test \<open>pointInPolygon\<close> applies to one edge of the ring, from \<open>vj\<close> to \<open>vi\<close>.\<close>

definition crossing :: "rounding \<Rightarrow> real \<Rightarrow> real \<Rightarrow> Point \<times> Point \<Rightarrow> bool" where
  "crossing fl x y e =
     (case e of (vj, vi) \<Rightarrow>
        ((snd vi > y) \<noteq> (snd vj > y)) \<and>
        x < fadd fl (fdiv fl (fmul fl (fsub fl (fst vj) (fst vi)) (fsub fl y (snd vi)))
                             (fsub fl (snd vj) (snd vi))) (fst vi))"

text \<open>The edges of a ring, each from a vertex to the next one, the last vertex to the first.\<close>

definition ring_edges :: "Point list \<Rightarrow> (Point \<times> Point) list" where
  "ring_edges polygon = zip (last polygon # polygon) polygon"

text \<open>A triangle whose three indices are indices of \<open>points\<close>.\<close>

definition validTriangle :: "Point list \<Rightarrow> Triangle \<Rightarrow> bool" where
  "validTriangle points tri =
     (case tri of (t0, t1, t2) \<Rightarrow>
        0 \<le> t0 \<and> t0 < int (length points) \<and> 0 \<le> t1 \<and> t1 < int (length points) \<and>
        0 \<le> t2 \<and> t2 < int (length points))"

text \<open>The arithmetic mean of the three vertex points of a triangle.\<close>

definition meanPoint :: "Point list \<Rightarrow> Triangle \<Rightarrow> Point" where
  "meanPoint points tri =
     (case tri of (t0, t1, t2) \<Rightarrow>
        ((fst (points ! nat t0) + fst (points ! nat t1) + fst (points ! nat t2)) / 3,
         (snd (points ! nat t0) + snd (points ! nat t1) + snd (points ! nat t2)) / 3))"

definition holeList :: "Point list list option \<Rightarrow> Point list list" where
  "holeList holes = (case holes of None \<Rightarrow> [] | Some hs \<Rightarrow> hs)"

text \<open>
  The mean of the three vertex points as double arithmetic computes it: the sum from left to
  right, then the division by three, every operation rounded. It is written from the words
  of the claim, not from \<open>triangleCentroid\<close>, to be compared with it.
\<close>

definition roundedMean :: "rounding \<Rightarrow> Point list \<Rightarrow> Triangle \<Rightarrow> Point" where
  "roundedMean fl points tri =
     (case tri of (t0, t1, t2) \<Rightarrow>
        (fl (fl (fl (fst (points ! nat t0) + fst (points ! nat t1)) + fst (points ! nat t2)) / 3),
         fl (fl (fl (snd (points ! nat t0) + snd (points ! nat t1)) + snd (points ! nat t2)) / 3)))"

text \<open>The point is inside the boundary and inside no hole.\<close>

definition insideRegion ::
  "rounding \<Rightarrow> Point list \<Rightarrow> Point list list option \<Rightarrow> Point \<Rightarrow> bool" where
  "insideRegion fl boundary holes c =
     (pointInPolygon fl c boundary \<and> (\<forall>h \<in> set (holeList holes). \<not> pointInPolygon fl c h))"

text \<open>The pairs \<open>(list[0], list[1]), (list[2], list[3]), ...\<close> of a flat array.\<close>

fun pairs :: "int list \<Rightarrow> (int \<times> int) list" where
  "pairs (s # t # rest) = (s, t) # pairs rest"
| "pairs _ = []"

text \<open>
  The star of \<open>w\<close> holds the pair \<open>(s, t)\<close>: it asserts the triangle \<open>(w, s, t)\<close>.
\<close>

definition registered :: "int list list \<Rightarrow> int \<Rightarrow> int \<Rightarrow> int \<Rightarrow> bool" where
  "registered ss w s t = (0 \<le> w \<and> w < int (length ss) \<and> (s, t) \<in> set (pairs (ss ! nat w)))"

text \<open>
  Every star has an even number of entries: so it is in every state the constructor,
  \<open>addTriangle\<close>, \<open>removeTriangle\<close> and \<open>flip\<close> can produce.
\<close>

definition evenStars :: "int list list \<Rightarrow> bool" where
  "evenStars ss = (\<forall>st \<in> set ss. even (length st))"

text \<open>\<open>u\<close> and \<open>v\<close> are the two ends of one of the three edges of the triangle.\<close>

definition edgeOf :: "Triangle \<Rightarrow> int \<Rightarrow> int \<Rightarrow> bool" where
  "edgeOf tri u v =
     (case tri of (w, s, t) \<Rightarrow>
        (u = w \<and> v = s) \<or> (u = s \<and> v = w) \<or> (u = s \<and> v = t) \<or> (u = t \<and> v = s) \<or>
        (u = t \<and> v = w) \<or> (u = w \<and> v = t))"

text \<open>Every triangle some star asserts.\<close>

definition starTriangles :: "Triangulation \<Rightarrow> Triangle list" where
  "starTriangles T =
     concat (map (\<lambda>w. map (\<lambda>(s, t). (int w, s, t)) (pairs (stars T ! w)))
               [0..<length (stars T)])"

text \<open>The edge between \<open>u\<close> and \<open>v\<close> is present in the triangulation.\<close>

definition hasEdge :: "Triangulation \<Rightarrow> int \<Rightarrow> int \<Rightarrow> bool" where
  "hasEdge T u v = (\<exists>tri \<in> set (starTriangles T). edgeOf tri u v)"

text \<open>No edge on the work stack is a constraint.\<close>

definition stackOK :: "Triangulation \<Rightarrow> int list \<Rightarrow> bool" where
  "stackOK T stack = (\<forall>(b, a) \<in> set (pairs stack). isConstraint T a b = Some False)"

text \<open>Every constraint edge that is present in \<open>T0\<close> is present in \<open>T\<close>.\<close>

definition keepsConstraints :: "Triangulation \<Rightarrow> Triangulation \<Rightarrow> bool" where
  "keepsConstraints T0 T =
     (\<forall>u v. isConstraint T0 u v = Some True \<and> hasEdge T0 u v \<longrightarrow> hasEdge T u v)"

definition refineInv :: "Triangulation \<Rightarrow> Triangulation \<Rightarrow> int list \<Rightarrow> bool" where
  "refineInv T0 T stack =
     (edges T = edges T0 \<and> evenStars (stars T) \<and> stackOK T stack \<and> keepsConstraints T0 T)"

text \<open>
  The states at the head of the main loop of \<open>delaunayRefine\<close> called on \<open>T0\<close>: the
  triangulation and the work stack, first as the first phase leaves them, then after each
  iteration.
\<close>

inductive refine_reach ::
  "rounding \<Rightarrow> Point list \<Rightarrow> Triangulation \<Rightarrow> Triangulation \<Rightarrow> int list \<Rightarrow> bool"
  for fl points T0 where
  start: "refine_init fl points T0 = Some stack \<Longrightarrow> refine_reach fl points T0 T0 stack"
| step: "refine_reach fl points T0 T (b # a # rest) \<Longrightarrow>
         refine_step fl points T a b rest = Some (T', stack') \<Longrightarrow>
         refine_reach fl points T0 T' stack'"

text \<open>
  The rest are the invariants the proof about the indices of the output triangles carries
  through the sweep and through the triangulation structure.
\<close>








section \<open>Binary search\<close>

lemma ushr1_mid:
  assumes "0 \<le> l" "l \<le> h" "h < 2147483648"
  shows "l \<le> ushr1 (l + h) \<and> ushr1 (l + h) \<le> h"
proof -
  have "0 \<le> l + h" "l + h < 4294967296" using assms by linarith+
  then have "ushr1 (l + h) = (l + h) div 2" by (simp add: ushr1_def)
  then show ?thesis using assms(2) by linarith
qed

text \<open>
  The loop of \<open>bsearchGe\<close> on an array of at most \<open>2^31\<close> elements, for a query \<open>y\<close> along
  which \<open>c (a ! k) y \<ge> 0\<close> is monotone: everything left of \<open>l\<close> compares below \<open>y\<close>,
  \<open>i = h + 1\<close> and everything from \<open>i\<close> on compares at least \<open>y\<close>.
\<close>

lemma bsearchGe_loop_correct:
  fixes c :: "'a \<Rightarrow> 'b \<Rightarrow> 'n::{zero,linorder}"
  assumes len: "int (length a) \<le> 2147483648"
    and mono: "\<And>i j. i \<le> j \<Longrightarrow> j < length a \<Longrightarrow> c (a ! i) y \<ge> 0 \<Longrightarrow> c (a ! j) y \<ge> 0"
  shows "0 \<le> l \<Longrightarrow> h < int (length a) \<Longrightarrow> l \<le> h + 1 \<Longrightarrow> i = h + 1 \<Longrightarrow>
         (\<forall>k < nat l. c (a ! k) y < 0) \<Longrightarrow>
         (i < int (length a) \<longrightarrow> c (a ! nat i) y \<ge> 0) \<Longrightarrow>
         \<exists>r. bsearchGe_loop a y c l h i = Some r \<and> 0 \<le> r \<and> r \<le> int (length a)
            \<and> (\<forall>k < nat r. c (a ! k) y < 0)
            \<and> (r < int (length a) \<longrightarrow> c (a ! nat r) y \<ge> 0)"
proof (induction "nat (h + 1 - l)" arbitrary: l h i rule: less_induct)
  case less
  show ?case
  proof (cases "l \<le> h")
    case False
    then have "bsearchGe_loop a y c l h i = Some i"
      by (subst bsearchGe_loop.simps) simp
    moreover have "i = l" using False less.prems(3,4) by linarith
    moreover have "l \<le> int (length a)" using less.prems(2,3) by linarith
    ultimately show ?thesis using less.prems(1,5,6) by simp
  next
    case True
    define m where "m = ushr1 (l + h)"
    have "h < 2147483648" using less.prems(2) len by linarith
    then have mr: "l \<le> m" "m \<le> h"
      using ushr1_mid [of l h] True less.prems(1) by (simp_all add: m_def)
    have m0: "0 \<le> m" using mr less.prems(1) by linarith
    have mlen: "nat m < length a" using mr less.prems(2) m0 by linarith
    show ?thesis
    proof (cases "c (a ! nat m) y \<ge> 0")
      case ge: True
      have step: "bsearchGe_loop a y c l h i = bsearchGe_loop a y c l (m - 1) m"
        using True ge by (subst bsearchGe_loop.simps) (simp add: Let_def m_def)
      have "nat (m - 1 + 1 - l) < nat (h + 1 - l)" using mr by linarith
      moreover have "m - 1 < int (length a)" using mlen by linarith
      moreover have "l \<le> m - 1 + 1" using mr by simp
      moreover have "m < int (length a) \<longrightarrow> 0 \<le> c (a ! nat m) y" using ge by simp
      ultimately have "\<exists>r. bsearchGe_loop a y c l (m - 1) m = Some r \<and> 0 \<le> r
            \<and> r \<le> int (length a)
            \<and> (\<forall>k < nat r. c (a ! k) y < 0)
            \<and> (r < int (length a) \<longrightarrow> c (a ! nat r) y \<ge> 0)"
        using less.hyps [of "m - 1" l m] less.prems(1,5) by simp
      then show ?thesis using step by simp
    next
      case lt: False
      have step: "bsearchGe_loop a y c l h i = bsearchGe_loop a y c (m + 1) h i"
        using True lt by (subst bsearchGe_loop.simps) (simp add: Let_def m_def)
      have below: "\<forall>k < nat (m + 1). c (a ! k) y < 0"
      proof (intro allI impI, rule ccontr)
        fix k assume k: "k < nat (m + 1)" and "\<not> c (a ! k) y < 0"
        then have "c (a ! k) y \<ge> 0" by simp
        moreover have "k \<le> nat m" using k m0 by linarith
        ultimately have "c (a ! nat m) y \<ge> 0" using mono [of k "nat m"] mlen by simp
        with lt show False by simp
      qed
      have "nat (h + 1 - (m + 1)) < nat (h + 1 - l)" using mr by linarith
      moreover have "0 \<le> m + 1" using m0 by simp
      moreover have "m + 1 \<le> h + 1" using mr by simp
      ultimately have "\<exists>r. bsearchGe_loop a y c (m + 1) h i = Some r \<and> 0 \<le> r
            \<and> r \<le> int (length a)
            \<and> (\<forall>k < nat r. c (a ! k) y < 0)
            \<and> (r < int (length a) \<longrightarrow> c (a ! nat r) y \<ge> 0)"
        using less.hyps [of h "m + 1" i] less.prems(2,4,6) below by simp
      then show ?thesis using step by simp
    qed
  qed
qed

text \<open>
  On an array of \<open>2^32 - 1\<close> elements that all compare below \<open>y\<close> the midpoint wraps
  around: from \<open>l \<ge> 2\<close> the next \<open>l\<close> is \<open>l div 2\<close>, from \<open>l \<le> 1\<close> it is \<open>2^31\<close>, and \<open>h\<close>
  never moves. No state of this cycle returns.
\<close>

lemma bsearchGe_loop_diverges:
  fixes c :: "'a \<Rightarrow> 'b \<Rightarrow> 'n::{zero,linorder}"
  assumes run: "bsearchGe_loop a y c l h i = Some r"
  shows "(length a = 4294967295 \<and> (\<forall>k < length a. c (a ! k) y < 0)) \<longrightarrow>
         \<not> (h = 4294967294 \<and> 0 \<le> l \<and> l \<le> 2147483648)"
proof (rule bsearchGe_loop.raw_induct
    [where P = "\<lambda>a y c l h i r. (length a = 4294967295 \<and> (\<forall>k < length a. c (a ! k) y < 0)) \<longrightarrow>
                  \<not> (h = 4294967294 \<and> 0 \<le> l \<and> l \<le> 2147483648)",
      OF _ run])
  fix loop :: "'a list \<Rightarrow> 'b \<Rightarrow> ('a \<Rightarrow> 'b \<Rightarrow> 'n) \<Rightarrow> int \<Rightarrow> int \<Rightarrow> int \<Rightarrow> int option"
  fix a y c l h i r
  assume IH: "\<And>a y c l h i r. loop a y c l h i = Some r \<Longrightarrow>
      (length a = 4294967295 \<and> (\<forall>k < length a. c (a ! k) y < 0)) \<longrightarrow>
      \<not> (h = 4294967294 \<and> 0 \<le> l \<and> l \<le> 2147483648)"
  assume step: "(if l \<le> h then
        (let m = ushr1 (l + h); x = a ! nat m; p = c x y in
         if p \<ge> 0 then loop a y c l (m - 1) m
         else loop a y c (m + 1) h i)
      else Some i) = Some r"
  show "(length a = 4294967295 \<and> (\<forall>k < length a. c (a ! k) y < 0)) \<longrightarrow>
        \<not> (h = 4294967294 \<and> 0 \<le> l \<and> l \<le> 2147483648)"
  proof (intro impI notI)
    assume neg: "length a = 4294967295 \<and> (\<forall>k < length a. c (a ! k) y < 0)"
    assume st: "h = 4294967294 \<and> 0 \<le> l \<and> l \<le> 2147483648"
    define m where "m = ushr1 (l + h)"
    have m1: "0 \<le> m + 1 \<and> m + 1 \<le> 2147483648"
      using st unfolding m_def ushr1_def by auto
    have m0: "0 \<le> m" unfolding m_def ushr1_def by simp
    have "nat m < length a" using m1 m0 neg by linarith
    then have "\<not> 0 \<le> c (a ! nat m) y" using neg by (simp add: not_le)
    then have "loop a y c (m + 1) h i = Some r"
      using step st by (simp add: Let_def m_def)
    then have "\<not> (h = 4294967294 \<and> 0 \<le> m + 1 \<and> m + 1 \<le> 2147483648)"
      using IH neg by blast
    with st m1 show False by simp
  qed
qed

text \<open>
  Claim C6, as amended. On an array \<open>a\<close> of at most \<open>2^31\<close> elements that is sorted in
  non-decreasing order with respect to a consistent comparator \<open>c\<close>, \<open>bsearchGe a y c\<close>
  returns an index \<open>r\<close> between \<open>0\<close> and the length of \<open>a\<close> such that every element before
  \<open>r\<close> compares below \<open>y\<close> and, when \<open>r\<close> is an index of \<open>a\<close>, the element at \<open>r\<close> compares
  at least \<open>y\<close>: \<open>r\<close> is the smallest index whose element compares at least \<open>y\<close>, and the
  length of \<open>a\<close> when there is none.
\<close>

theorem bsearchGe_lower_bound:
  fixes c :: "'a \<Rightarrow> 'a \<Rightarrow> 'n::{zero,linorder}"
  assumes "length a \<le> 2147483648" "consistent c" "sorted_by c a"
  shows "\<exists>r. bsearchGe a y c = Some r \<and> 0 \<le> r \<and> r \<le> int (length a)
            \<and> (\<forall>k < nat r. c (a ! k) y < 0)
            \<and> (r < int (length a) \<longrightarrow> c (a ! nat r) y \<ge> 0)"
proof -
  have mono: "c (a ! j) y \<ge> 0" if "i \<le> j" "j < length a" "c (a ! i) y \<ge> 0" for i j
  proof -
    have 1: "c y (a ! i) \<le> 0" using that(3) assms(2) unfolding consistent_def by blast
    have 2: "c (a ! i) (a ! j) \<le> 0" using that(1,2) assms(3) unfolding sorted_by_def by blast
    have "c y (a ! j) \<le> 0" using 1 2 assms(2) unfolding consistent_def by blast
    then show ?thesis using assms(2) unfolding consistent_def by blast
  qed
  have len: "int (length a) \<le> 2147483648" using assms(1) by simp
  show ?thesis
    unfolding bsearchGe_def Let_def
    using bsearchGe_loop_correct [where a = a and c = c and y = y and l = 0
        and h = "int (length a) - 1" and i = "int (length a) - 1 + 1", OF len mono]
    by simp
qed

lemma consistent_minus: "consistent (\<lambda>x y :: int. x - y)"
  unfolding consistent_def by auto

theorem bsearchGe_lower_bound_witness:
  "length [1, 3, 5, 7 :: int] \<le> 2147483648
   \<and> consistent (\<lambda>x y :: int. x - y)
   \<and> sorted_by (\<lambda>x y :: int. x - y) [1, 3, 5, 7]
   \<and> bsearchGe [1, 3, 5, 7 :: int] 4 (\<lambda>x y. x - y) = Some 2
   \<and> (\<exists>r. bsearchGe [1, 3, 5, 7 :: int] 4 (\<lambda>x y. x - y) = Some r \<and> 0 \<le> r
          \<and> r \<le> int (length [1, 3, 5, 7 :: int])
          \<and> (\<forall>k < nat r. [1, 3, 5, 7 :: int] ! k - 4 < 0)
          \<and> (r < int (length [1, 3, 5, 7 :: int]) \<longrightarrow> [1, 3, 5, 7 :: int] ! nat r - 4 \<ge> 0))"
proof -
  have s: "sorted_by (\<lambda>x y :: int. x - y) [1, 3, 5, 7]"
    unfolding sorted_by_def by (auto simp: less_Suc_eq nth_Cons' numeral_eq_Suc)
  have l: "length [1, 3, 5, 7 :: int] \<le> 2147483648" by simp
  have e: "bsearchGe [1, 3, 5, 7 :: int] 4 (\<lambda>x y. x - y) = Some 2"
    by code_simp
  show ?thesis
    using bsearchGe_lower_bound [OF l consistent_minus s, of 4] s l e consistent_minus by blast
qed

theorem bsearchGe_huge_counterexample:
  "sorted_by (\<lambda>x y :: int. x - y) (replicate 4294967295 0)
   \<and> bsearchGe (replicate 4294967295 (0::int)) (1::int) (\<lambda>x y. x - y) = None"
proof -
  define a where "a = replicate 4294967295 (0::int)"
  have len: "length a = 4294967295" by (simp add: a_def)
  have neg: "\<forall>k < length a. a ! k - 1 < 0"
    by (simp add: a_def)
  have "bsearchGe_loop a (1::int) (\<lambda>x y. x - y) 0 4294967294 4294967295 = None"
  proof (cases "bsearchGe_loop a (1::int) (\<lambda>x y. x - y) 0 4294967294 4294967295")
    case None then show ?thesis .
  next
    case (Some r)
    from bsearchGe_loop_diverges [OF Some] len neg show ?thesis by auto
  qed
  then have "bsearchGe a (1::int) (\<lambda>x y. x - y) = None"
    unfolding bsearchGe_def Let_def len by simp
  moreover have "sorted_by (\<lambda>x y :: int. x - y) a"
    unfolding sorted_by_def a_def by simp
  ultimately show ?thesis unfolding a_def by simp
qed

section \<open>Evaluating the double precision rounding\<close>

lemma binary64_eval:
  assumes "x \<noteq> 0" "2 powr (of_int e) \<le> \<bar>x\<bar>" "\<bar>x\<bar> < 2 powr (of_int (e + 1))"
  shows "binary64 x = 2 powr (of_int e - 52) * of_int (round_even (x / 2 powr (of_int e - 52)))"
proof -
  have "\<lfloor>log 2 \<bar>x\<bar>\<rfloor> = e"
    using assms by (subst floor_log_eq_powr_iff) auto
  then show ?thesis using assms(1) by (simp add: binary64_def Let_def)
qed

text \<open>A number of magnitude below one, \<open>1 / 2^n \<le> \<bar>x\<bar> < 2 / 2^n\<close>.\<close>

lemma binary64_small:
  assumes "1 / 2 ^ n \<le> \<bar>x\<bar>" "\<bar>x\<bar> < 2 / 2 ^ n"
  shows "binary64 x = of_int (round_even (x * 2 ^ (n + 52))) / 2 ^ (n + 52)"
proof -
  have x0: "x \<noteq> 0" using assms(1) by (auto simp: field_simps)
  have p1: "2 powr (of_int (- int n)) = 1 / (2::real) ^ n"
    by (simp add: powr_minus powr_realpow inverse_eq_divide)
  have p2: "2 powr (of_int (- int n + 1)) = 2 / (2::real) ^ n"
  proof -
    have "2 powr (of_int (- int n + 1)) = 2 powr (of_int (- int n) + (1::real))"
      by simp
    also have "\<dots> = 2 powr (of_int (- int n)) * 2 powr (1::real)"
      by (rule powr_add)
    finally show ?thesis using p1 by simp
  qed
  have p3: "2 powr (of_int (- int n) - 52) = 1 / (2::real) ^ (n + 52)"
  proof -
    have "2 powr (of_int (- int n) - 52) = 2 powr (of_int (- int n)) / 2 powr (52::real)"
      by (rule powr_diff)
    also have "2 powr (52::real) = (2::real) ^ 52"
      using powr_realpow [of "2::real" 52] by simp
    finally show ?thesis
      unfolding p1 by (simp only: power_add divide_divide_eq_left)
  qed
  show ?thesis
    using binary64_eval [of x "- int n"] x0 assms p1 p2 p3 by simp
qed

text \<open>A number of magnitude at least one, \<open>2^n \<le> \<bar>x\<bar> < 2 * 2^n\<close> with \<open>n \<le> 52\<close>.\<close>

lemma binary64_large:
  assumes "2 ^ n \<le> \<bar>x\<bar>" "\<bar>x\<bar> < 2 * 2 ^ n" "n \<le> 52"
  shows "binary64 x = of_int (round_even (x * 2 ^ (52 - n))) / 2 ^ (52 - n)"
proof -
  have pos: "0 < (2::real) ^ n" by simp
  have x0: "x \<noteq> 0"
  proof
    assume "x = 0"
    with assms(1) have "(2::real) ^ n \<le> 0" by simp
    with pos show False by linarith
  qed
  have p1: "2 powr (of_int (int n)) = (2::real) ^ n"
    by (simp add: powr_realpow)
  have p2: "2 powr (of_int (int n + 1)) = 2 * (2::real) ^ n"
    using powr_realpow [of "2::real" "Suc n"] by (simp add: add.commute)
  have p3: "2 powr (of_int (int n) - 52) = 1 / (2::real) ^ (52 - n)"
  proof -
    have "2 powr (of_int (int n) - 52) = 2 powr (of_int (int n)) / 2 powr (52::real)"
      by (rule powr_diff)
    also have "2 powr (52::real) = (2::real) ^ 52"
      using powr_realpow [of "2::real" 52] by simp
    also have "(2::real) ^ 52 = 2 ^ n * 2 ^ (52 - n)"
      using assms(3) by (simp only: flip: power_add) simp
    finally show ?thesis
      unfolding p1 by simp
  qed
  show ?thesis
    using binary64_eval [of x "int n"] x0 assms p1 p2 p3 by simp
qed

text \<open>
  The doubles the reversal counterexample meets. \<open>6004799503160661 / 2^54\<close> is the double
  nearest to one third, \<open>6004799503160661 / 2^53\<close> the one nearest to two thirds.
\<close>

lemma binary64_zero: "binary64 0 = 0"
  by (simp add: binary64_def)

lemma binary64_integers:
  "binary64 1 = 1" "binary64 (- 1) = - 1" "binary64 2 = 2" "binary64 (- 2) = - 2"
  "binary64 3 = 3" "binary64 (- 3) = - 3"
  using binary64_large [of 0 1] binary64_large [of 0 "- 1"] binary64_large [of 1 2]
    binary64_large [of 1 "- 2"] binary64_large [of 1 3] binary64_large [of 1 "- 3"]
  by (simp_all add: round_even_def)

lemma binary64_thirds:
  "binary64 (1 / 3) = 6004799503160661 / 18014398509481984"
  "binary64 (- (1 / 3)) = - (6004799503160661 / 18014398509481984)"
  "binary64 (2 / 3) = 6004799503160661 / 9007199254740992"
  "binary64 (- (2 / 3)) = - (6004799503160661 / 9007199254740992)"
  using binary64_small [of 2 "1 / 3"] binary64_small [of 2 "- (1 / 3)"]
    binary64_small [of 1 "2 / 3"] binary64_small [of 1 "- (2 / 3)"]
  by (simp_all add: round_even_def)

lemma binary64_fixed:
  "binary64 (6004799503160661 / 18014398509481984) = 6004799503160661 / 18014398509481984"
  "binary64 (- (6004799503160661 / 18014398509481984)) = - (6004799503160661 / 18014398509481984)"
  "binary64 (3002399751580331 / 9007199254740992) = 3002399751580331 / 9007199254740992"
  "binary64 (- (3002399751580331 / 9007199254740992)) = - (3002399751580331 / 9007199254740992)"
  using binary64_small [of 2 "6004799503160661 / 18014398509481984"]
    binary64_small [of 2 "- (6004799503160661 / 18014398509481984)"]
    binary64_small [of 2 "3002399751580331 / 9007199254740992"]
    binary64_small [of 2 "- (3002399751580331 / 9007199254740992)"]
  by (simp_all add: round_even_def)

text \<open>
  The rounding of any rational literal: the exponent is found by halving or doubling, the
  power of two is an ordinary power. With the two congruence rules the simplifier evaluates
  the argument of a \<open>let\<close> and of a bind before it enters the body, as the program does.
\<close>

lemma floor_log2_step:
  assumes "0 < x"
  shows "\<lfloor>log 2 x\<rfloor> = (if x < 1 then \<lfloor>log 2 (2 * x)\<rfloor> - 1
                       else if 2 \<le> x then \<lfloor>log 2 (x / 2)\<rfloor> + 1 else 0)"
proof -
  have a: "log 2 (2 * x) = 1 + log 2 x" using assms by (simp add: log_mult)
  have b: "log 2 (x / 2) = log 2 x - 1" using assms by (simp add: log_divide)
  have c: "1 \<le> x \<Longrightarrow> x < 2 \<Longrightarrow> \<lfloor>log 2 x\<rfloor> = 0"
    by (subst floor_log_eq_powr_iff) (use assms in auto)
  show ?thesis using c by (simp add: a b)
qed

lemma powr_of_int_2:
  "(2::real) powr (of_int e) = (if 0 \<le> e then 2 ^ nat e else 1 / 2 ^ nat (- e))"
proof (cases "0 \<le> e")
  case True
  then have "of_int e = real (nat e)" by simp
  then show ?thesis using True powr_realpow [of 2 "nat e"] by simp
next
  case False
  then have e: "of_int e = - real (nat (- e))" by simp
  have "(2::real) powr (of_int e) = 1 / 2 powr (real (nat (- e)))"
    unfolding e by (simp add: powr_minus inverse_eq_divide)
  then show ?thesis using False powr_realpow [of 2 "nat (- e)"] by simp
qed

lemma binary64_compute:
  "binary64 x =
     (if x = 0 then 0
      else let e = \<lfloor>log 2 \<bar>x\<bar>\<rfloor> - 52;
               u = (if 0 \<le> e then 2 ^ nat e else 1 / 2 ^ nat (- e))
           in u * of_int (round_even (x / u)))"
proof -
  have "(2::real) powr (of_int \<lfloor>log 2 \<bar>x\<bar>\<rfloor> - 52) = 2 powr (of_int (\<lfloor>log 2 \<bar>x\<bar>\<rfloor> - 52))"
    by simp
  then show ?thesis
    unfolding binary64_def Let_def by (simp only: powr_of_int_2)
qed

lemma Let_weak_cong: "s = t \<Longrightarrow> Let s f = Let t f"
  by simp

lemma bind_weak_cong: "m = n \<Longrightarrow> Option.bind m f = Option.bind n f"
  by simp

lemmas binary64_literal = binary64_compute floor_log2_step round_even_def Let_def

section \<open>The orientation predicate\<close>

lemma orient2d_exact:
  "orient2d exact a b c = (snd a - snd c) * (fst b - fst c) - (fst a - fst c) * (snd b - snd c)"
  by (simp add: orient2d_def fsub_def fmul_def exact_def)

text \<open>
  In exact arithmetic \<open>orient2d a b c\<close> is minus twice the signed area of the triangle
  \<open>a, b, c\<close>, for every triple: the sign is the opposite of the documented one everywhere.
\<close>

lemma orient2d_exact_area:
  "orient2d exact a b c = - 2 * signed_area a b c"
  by (simp add: orient2d_exact signed_area_def algebra_simps)

text \<open>
  Claim C2. The comment of \<open>orient2d\<close> and the claim say that the value is positive when
  \<open>a, b, c\<close> are counter-clockwise. At \<open>a = (0, 0)\<close>, \<open>b = (1, 0)\<close>, \<open>c = (0, 1)\<close> the three
  points turn counter-clockwise, their signed area is \<open>1 / 2\<close>, and \<open>orient2d\<close> returns \<open>-1\<close>,
  in exact arithmetic and in double precision alike (every operation on these coordinates
  is exact).
\<close>

theorem orient2d_ccw_counterexample:
  "\<not> (0 < orient2d exact (0, 0) (1, 0) (0, 1) \<longleftrightarrow> 0 < signed_area (0, 0) (1, 0) (0, 1))
   \<and> orient2d exact (0, 0) (1, 0) (0, 1) = - 1
   \<and> orient2d binary64 (0, 0) (1, 0) (0, 1) = - 1
   \<and> signed_area (0, 0) (1, 0) (0, 1) = 1 / 2"
  by (simp add: orient2d_exact signed_area_def)
     (simp add: orient2d_def fsub_def fmul_def binary64_integers binary64_zero)

section \<open>The point-in-polygon test\<close>

lemma pointInPolygon_loop_count:
  "pointInPolygon_loop fl x y vj ps inside =
     (inside \<noteq> odd (length (filter (crossing fl x y) (zip (vj # ps) ps))))"
  by (induction ps arbitrary: vj inside) (auto simp: crossing_def Let_def)

text \<open>The test counts the edges of the ring that cross the ray, and answers the parity.\<close>

lemma pointInPolygon_count:
  "pointInPolygon fl p polygon =
     odd (size (filter_mset (crossing fl (fst p) (snd p)) (mset (ring_edges polygon))))"
  by (cases polygon) (simp_all add: pointInPolygon_def pointInPolygon_loop_count ring_edges_def
        flip: mset_filter del: filter.simps zip_Cons_Cons)

lemma zip_longer: "length as = length bs \<Longrightarrow> zip (as @ cs) bs = zip as bs"
  by (simp add: zip_append1)

lemma ring_edges_rotate1: "mset (ring_edges (rotate1 polygon)) = mset (ring_edges polygon)"
proof (cases polygon)
  case Nil
  then show ?thesis by (simp add: ring_edges_def)
next
  case (Cons x xs)
  define B where "B = butlast (x # xs)"
  define l where "l = last (x # xs)"
  have P: "x # xs = B @ [l]"
    unfolding B_def l_def by (rule append_butlast_last_id [symmetric]) simp
  have len: "length B = length xs" unfolding B_def by simp
  have "ring_edges (rotate1 polygon) = zip ((x # xs) @ [x]) (xs @ [x])"
    using Cons by (simp add: ring_edges_def)
  also have "\<dots> = zip (x # xs) (xs @ [x])"
    by (rule zip_longer) simp
  also have "\<dots> = zip B xs @ [(l, x)]"
    unfolding P using len by simp
  finally have 1: "ring_edges (rotate1 polygon) = zip B xs @ [(l, x)]" .
  have "ring_edges polygon = (l, x) # zip (x # xs) xs"
    using Cons by (simp add: ring_edges_def l_def)
  also have "zip (x # xs) xs = zip B xs"
    unfolding P using len by (simp add: zip_append1)
  finally have 2: "ring_edges polygon = (l, x) # zip B xs" .
  show ?thesis unfolding 1 2 by simp
qed

lemma ring_edges_rotate: "mset (ring_edges (rotate n polygon)) = mset (ring_edges polygon)"
  by (induction n) (simp_all add: ring_edges_rotate1)

text \<open>The reversed ring has the same edges, each one turned around.\<close>

lemma ring_edges_rev:
  "mset (ring_edges (rev polygon)) = mset (map (\<lambda>(u, v). (v, u)) (ring_edges polygon))"
proof (cases polygon)
  case Nil
  then show ?thesis by (simp add: ring_edges_def)
next
  case (Cons h t)
  define B where "B = butlast (h # t)"
  define l where "l = last (h # t)"
  have P: "h # t = B @ [l]"
    unfolding B_def l_def by (rule append_butlast_last_id [symmetric]) simp
  have len: "length B = length t" unfolding B_def by simp
  have revP: "rev (h # t) = l # rev B"
    unfolding P by simp
  have "ring_edges (rev polygon) = zip (h # rev (h # t)) (rev (h # t))"
    using Cons by (simp add: ring_edges_def)
  also have "\<dots> = (h, l) # zip (rev (h # t)) (rev B)"
    unfolding revP by simp
  also have "zip (rev (h # t)) (rev B) = zip (rev t) (rev B)"
    using len by (simp add: zip_append1)
  also have "\<dots> = rev (zip t B)"
    using len by (simp add: zip_rev)
  finally have 1: "ring_edges (rev polygon) = (h, l) # rev (zip t B)" .
  have "ring_edges polygon = (l, h) # zip (h # t) t"
    using Cons by (simp add: ring_edges_def l_def)
  also have "zip (h # t) t = zip B t"
    unfolding P using len by (simp add: zip_append1)
  finally have "map (\<lambda>(u, v). (v, u)) (ring_edges polygon)
      = (h, l) # map (\<lambda>(u, v). (v, u)) (zip B t)"
    by simp
  also have "map (\<lambda>(u, v). (v, u)) (zip B t) = zip t B"
    by (simp add: zip_commute [of t B])
  finally have 2: "map (\<lambda>(u, v). (v, u)) (ring_edges polygon) = (h, l) # zip t B" .
  show ?thesis unfolding 1 2 by simp
qed

text \<open>In exact arithmetic both directions of an edge give the same point of intersection.\<close>

lemma crossing_exact_sym: "crossing exact x y (v, u) = crossing exact x y (u, v)"
proof (cases "snd u = snd v")
  case True
  then show ?thesis by (auto simp: crossing_def)
next
  case False
  then have "(fst v - fst u) * (y - snd u) / (snd v - snd u) + fst u
           = (fst u - fst v) * (y - snd v) / (snd u - snd v) + fst v"
    by (simp add: field_simps)
  then show ?thesis
    by (auto simp: crossing_def fadd_def fdiv_def fmul_def fsub_def exact_def)
qed

lemma crossing_exact_swap:
  "size (filter_mset (crossing exact x y) (image_mset (\<lambda>(u, v). (v, u)) M))
     = size (filter_mset (crossing exact x y) M)"
proof -
  have "(\<lambda>e. crossing exact x y ((\<lambda>(u, v). (v, u)) e)) = crossing exact x y"
    by (rule ext) (auto simp: crossing_exact_sym)
  then show ?thesis
    by (simp add: filter_mset_image_mset)
qed

text \<open>
  Claim C7, as amended. For every query point and every ring, \<open>pointInPolygon\<close> returns the
  same boolean when the ring is replaced by any cyclic rotation of its vertex list, whatever
  the rounding of the arithmetic; and it returns the same boolean when the ring is replaced
  by its reversal, in exact arithmetic.
\<close>

theorem pointInPolygon_rotate_rev:
  "pointInPolygon fl p (rotate n polygon) = pointInPolygon fl p polygon
   \<and> pointInPolygon exact p (rev polygon) = pointInPolygon exact p polygon"
  by (simp add: pointInPolygon_count ring_edges_rotate ring_edges_rev crossing_exact_swap)

text \<open>
  In double precision the reversal can change the answer. The query point is
  \<open>(6004799503160661 / 2^54, 1)\<close> (the double nearest to \<open>(1 / 3, 1)\<close>, just left of the edge
  from \<open>(0, 0)\<close> to \<open>(1, 3)\<close>). Walking the edge from \<open>(0, 0)\<close> the intersection is computed
  as \<open>-2 / -3 ... + 1\<close>, which rounds to \<open>6004799503160662 / 2^54\<close>, right of the point;
  walking it from \<open>(1, 3)\<close> the intersection is \<open>1 / 3 + 0\<close>, which rounds to the point's own
  abscissa.
\<close>

theorem pointInPolygon_reversal_counterexample:
  "pointInPolygon binary64 (6004799503160661 / 18014398509481984, 1) [(0, 0), (1, 3), (- 1, 3)]
   \<noteq> pointInPolygon binary64 (6004799503160661 / 18014398509481984, 1)
        (rev [(0, 0), (1, 3), (- 1, 3)])"
proof -
  have "pointInPolygon binary64 (6004799503160661 / 18014398509481984, 1)
          [(0, 0), (1, 3), (- 1, 3)]"
    by (simp add: pointInPolygon_def fadd_def fsub_def fmul_def fdiv_def
        binary64_integers binary64_thirds binary64_fixed)
  moreover have "\<not> pointInPolygon binary64 (6004799503160661 / 18014398509481984, 1)
          (rev [(0, 0), (1, 3), (- 1, 3)])"
    by (simp add: pointInPolygon_def fadd_def fsub_def fmul_def fdiv_def
        binary64_integers binary64_thirds binary64_fixed)
  ultimately show ?thesis by simp
qed

section \<open>The centroid filter\<close>

lemma outsideHoles_iff: "outsideHoles fl c hs = (\<forall>h \<in> set hs. \<not> pointInPolygon fl c h)"
  by (induction hs) auto

lemma triangleCentroid_Some_iff:
  "(\<exists>c. triangleCentroid fl points tri = Some c) = validTriangle points tri"
  by (cases tri)
    (auto simp: triangleCentroid_def validTriangle_def getPoint_def
      split: Option.bind_splits if_splits)

lemma triangleCentroid_roundedMean:
  "validTriangle points tri \<Longrightarrow> triangleCentroid fl points tri = Some (roundedMean fl points tri)"
  by (cases tri)
    (auto simp: triangleCentroid_def validTriangle_def getPoint_def roundedMean_def
      fadd_def fdiv_def)

lemma roundedMean_exact: "roundedMean exact points tri = meanPoint points tri"
  by (cases tri) (simp add: roundedMean_def meanPoint_def exact_def)

lemma keepTriangle_valid:
  assumes "validTriangle points tri"
  shows "keepTriangle fl points boundary holes tri
           = Some (insideRegion fl boundary holes (roundedMean fl points tri))"
  by (cases holes)
    (simp_all add: keepTriangle_def insideRegion_def triangleCentroid_roundedMean [OF assms]
      holeList_def outsideHoles_iff)

lemma keepTriangle_invalid:
  assumes "\<not> validTriangle points tri"
  shows "keepTriangle fl points boundary holes tri = None"
proof -
  have "triangleCentroid fl points tri = None"
    using assms triangleCentroid_Some_iff [of fl points tri]
    by (cases "triangleCentroid fl points tri") auto
  then show ?thesis by (simp add: keepTriangle_def)
qed

lemma filterTriangles_loop_valid:
  assumes "\<forall>tri \<in> set triangles. validTriangle points tri"
  shows "filterTriangles_loop fl points boundary holes triangles =
     Some (filter (\<lambda>tri. insideRegion fl boundary holes (roundedMean fl points tri)) triangles)"
  using assms by (induction triangles) (simp_all add: keepTriangle_valid)

lemma filterTriangles_loop_invalid:
  assumes "\<not> (\<forall>tri \<in> set triangles. validTriangle points tri)"
  shows "filterTriangles_loop fl points boundary holes triangles = None"
  using assms
proof (induction triangles)
  case Nil
  then show ?case by simp
next
  case (Cons tri rest)
  show ?case
  proof (cases "validTriangle points tri")
    case True
    then have "\<not> (\<forall>tri \<in> set rest. validTriangle points tri)" using Cons.prems by simp
    then have "filterTriangles_loop fl points boundary holes rest = None" by (rule Cons.IH)
    then show ?thesis by (simp split: Option.bind_splits)
  next
    case False
    then show ?thesis by (simp add: keepTriangle_invalid)
  qed
qed

text \<open>
  Claim C8, as amended. When every triangle of the input has its three indices within
  \<open>points\<close>, \<open>filterTriangles\<close> returns exactly the triangles of its input, in input order,
  whose centroid is inside the boundary and inside no hole; when some triangle has an index
  outside \<open>points\<close> the call throws. The centroid is the mean of the three vertex points as
  the arithmetic at hand computes it, \<open>((a + b) + c) / 3\<close> with every operation rounded
  (\<open>roundedMean\<close>); in exact arithmetic that is the arithmetic mean.
\<close>

theorem filterTriangles_spec:
  "filterTriangles fl points triangles boundary holes =
     (if \<forall>tri \<in> set triangles. validTriangle points tri
      then Some (filter (\<lambda>tri. insideRegion fl boundary holes (roundedMean fl points tri))
                   triangles)
      else None)
   \<and> roundedMean exact points tri = meanPoint points tri"
  using filterTriangles_loop_valid [of triangles points fl boundary holes]
    filterTriangles_loop_invalid [of triangles points fl boundary holes]
  by (simp add: filterTriangles_def roundedMean_exact)

text \<open>
  A square cut into two triangles, with a hole inside the first one, in double precision:
  the centroids are the doubles nearest to \<open>(8 / 3, 4 / 3)\<close> and \<open>(4 / 3, 8 / 3)\<close>, and the
  triangle whose centroid is in the hole is dropped.
\<close>

theorem filterTriangles_spec_witness:
  "validTriangle [(0, 0), (4, 0), (4, 4), (0, 4)] (0, 1, 2)
   \<and> validTriangle [(0, 0), (4, 0), (4, 4), (0, 4)] (0, 2, 3)
   \<and> roundedMean binary64 [(0, 0), (4, 0), (4, 4), (0, 4)] (0, 1, 2)
       = (6004799503160661 / 2251799813685248, 6004799503160661 / 4503599627370496)
   \<and> roundedMean binary64 [(0, 0), (4, 0), (4, 4), (0, 4)] (0, 2, 3)
       = (6004799503160661 / 4503599627370496, 6004799503160661 / 2251799813685248)
   \<and> roundedMean exact [(0, 0), (4, 0), (4, 4), (0, 4)] (0, 1, 2) = (8 / 3, 4 / 3)
   \<and> filterTriangles binary64 [(0, 0), (4, 0), (4, 4), (0, 4)] [(0, 1, 2), (0, 2, 3)]
         [(0, 0), (4, 0), (4, 4), (0, 4)] (Some [[(2, 1), (3, 1), (3, 2)]]) = Some [(0, 2, 3)]"
proof -
  define ps :: "Point list" where "ps = [(0, 0), (4, 0), (4, 4), (0, 4)]"
  define hs :: "Point list list option" where "hs = Some [[(2, 1), (3, 1), (3, 2)]]"
  have v: "validTriangle ps (0, 1, 2)" "validTriangle ps (0, 2, 3)"
    by (simp_all add: validTriangle_def ps_def)
  have m1: "roundedMean binary64 ps (0, 1, 2)
       = (6004799503160661 / 2251799813685248, 6004799503160661 / 4503599627370496)"
    by (simp add: ps_def roundedMean_def binary64_literal cong: Let_weak_cong)
  have m2: "roundedMean binary64 ps (0, 2, 3)
       = (6004799503160661 / 4503599627370496, 6004799503160661 / 2251799813685248)"
    by (simp add: ps_def roundedMean_def binary64_literal cong: Let_weak_cong)
  have i1: "\<not> insideRegion binary64 ps hs
       (6004799503160661 / 2251799813685248, 6004799503160661 / 4503599627370496)"
    by (simp add: ps_def hs_def insideRegion_def holeList_def pointInPolygon_def
        fadd_def fsub_def fmul_def fdiv_def binary64_literal cong: Let_weak_cong)
  have i2: "insideRegion binary64 ps hs
       (6004799503160661 / 4503599627370496, 6004799503160661 / 2251799813685248)"
    by (simp add: ps_def hs_def insideRegion_def holeList_def pointInPolygon_def
        fadd_def fsub_def fmul_def fdiv_def binary64_literal cong: Let_weak_cong)
  have e: "meanPoint ps (0, 1, 2) = (8 / 3, 4 / 3)"
    by (simp add: ps_def meanPoint_def)
  show ?thesis
    using filterTriangles_spec [of binary64 ps "[(0, 1, 2), (0, 2, 3)]" ps hs "(0, 1, 2)"]
      v m1 m2 i1 i2 e
    unfolding ps_def hs_def by simp
qed

text \<open>
  The claim as stated takes the centroid to be the arithmetic mean. In double precision it
  is not: for the triangle \<open>(0, 0)\<close>, \<open>(5, 0)\<close>, \<open>(0, 3)\<close> the mean is \<open>(5 / 3, 1)\<close>, and
  \<open>triangleCentroid\<close> returns the double nearest to it, which lies to the right of \<open>5 / 3\<close>.
  With a boundary whose left side is at that double the computed centroid is inside and the
  triangle is kept, while the arithmetic mean is outside, under the point-in-polygon test of
  either arithmetic.
\<close>

theorem filterTriangles_mean_counterexample:
  "filterTriangles binary64 [(0, 0), (5, 0), (0, 3)] [(0, 1, 2)]
     [(7505999378950827 / 4503599627370496, 0), (3, 0), (3, 2),
      (7505999378950827 / 4503599627370496, 2)] None = Some [(0, 1, 2)]
   \<and> triangleCentroid binary64 [(0, 0), (5, 0), (0, 3)] (0, 1, 2)
       = Some (7505999378950827 / 4503599627370496, 1)
   \<and> meanPoint [(0, 0), (5, 0), (0, 3)] (0, 1, 2) = (5 / 3, 1)
   \<and> \<not> pointInPolygon binary64 (meanPoint [(0, 0), (5, 0), (0, 3)] (0, 1, 2))
         [(7505999378950827 / 4503599627370496, 0), (3, 0), (3, 2),
          (7505999378950827 / 4503599627370496, 2)]
   \<and> \<not> pointInPolygon exact (meanPoint [(0, 0), (5, 0), (0, 3)] (0, 1, 2))
         [(7505999378950827 / 4503599627370496, 0), (3, 0), (3, 2),
          (7505999378950827 / 4503599627370496, 2)]"
proof -
  have 1: "filterTriangles binary64 [(0, 0), (5, 0), (0, 3)] [(0, 1, 2)]
     [(7505999378950827 / 4503599627370496, 0), (3, 0), (3, 2),
      (7505999378950827 / 4503599627370496, 2)] None = Some [(0, 1, 2)]"
    by (simp add: filterTriangles_def keepTriangle_def triangleCentroid_def getPoint_def
        pointInPolygon_def fadd_def fdiv_def fsub_def fmul_def binary64_literal
        cong: Let_weak_cong bind_weak_cong)
  have 2: "triangleCentroid binary64 [(0, 0), (5, 0), (0, 3)] (0, 1, 2)
       = Some (7505999378950827 / 4503599627370496, 1)"
    by (simp add: triangleCentroid_def getPoint_def fadd_def fdiv_def binary64_literal
        cong: Let_weak_cong bind_weak_cong)
  have 3: "meanPoint [(0, 0), (5, 0), (0, 3)] (0, 1, 2) = (5 / 3, 1)"
    by (simp add: meanPoint_def)
  have 4: "\<not> pointInPolygon binary64 (5 / 3, 1)
         [(7505999378950827 / 4503599627370496, 0), (3, 0), (3, 2),
          (7505999378950827 / 4503599627370496, 2)]"
    by (simp add: pointInPolygon_def fadd_def fdiv_def fsub_def fmul_def binary64_literal
        cong: Let_weak_cong)
  have 5: "\<not> pointInPolygon exact (5 / 3, 1)
         [(7505999378950827 / 4503599627370496, 0), (3, 0), (3, 2),
          (7505999378950827 / 4503599627370496, 2)]"
    by (simp add: pointInPolygon_def fadd_def fdiv_def fsub_def fmul_def exact_def)
  show ?thesis using 1 2 4 5 unfolding 3 by simp
qed

section \<open>Delaunay refinement\<close>

subsection \<open>What removing a pair from a star leaves\<close>

lemma length_pairs: "length (pairs l) = length l div 2"
  by (induction l rule: pairs.induct) simp_all

lemma pairs_nth: "q < length l div 2 \<Longrightarrow> pairs l ! q = (l ! (2 * q), l ! (2 * q + 1))"
proof (induction l arbitrary: q rule: pairs.induct)
  case (1 s t rest)
  then show ?case by (cases q) simp_all
qed simp_all

lemma swap_last_keeps:
  assumes "e \<in> set xs" "q < length xs" "e \<noteq> xs ! q"
  shows "e \<in> set (butlast (xs[q := last xs]))"
proof -
  from assms(1) obtain p where p: "p < length xs" "xs ! p = e" by (auto simp: in_set_conv_nth)
  have pq: "p \<noteq> q" using p assms(3) by auto
  define ys where "ys = xs[q := last xs]"
  have len: "length ys = length xs" by (simp add: ys_def)
  show ?thesis
  proof (cases "p = length xs - 1")
    case True
    then have "q < length xs - 1" using assms(2) pq by linarith
    moreover have "xs \<noteq> []" using assms(2) by auto
    then have "last xs = e" using p True by (simp add: last_conv_nth)
    then have "ys ! q = e"
      using assms(2) by (simp add: ys_def)
    ultimately have "butlast ys ! q = e" "q < length (butlast ys)"
      using len by (simp_all add: nth_butlast)
    then show ?thesis unfolding ys_def [symmetric] by (metis nth_mem)
  next
    case False
    then have "p < length xs - 1" using p(1) by linarith
    moreover have "ys ! p = e" using p pq by (simp add: ys_def)
    ultimately have "butlast ys ! p = e" "p < length (butlast ys)"
      using len by (simp_all add: nth_butlast)
    then show ?thesis unfolding ys_def [symmetric] by (metis nth_mem)
  qed
qed

lemma swap_last_subset:
  assumes "q < length xs"
  shows "set (butlast (xs[q := last xs])) \<subseteq> set xs"
proof -
  have "xs \<noteq> []" using assms by auto
  then have "last xs \<in> set xs" by simp
  then have "set (xs[q := last xs]) \<subseteq> set xs"
    using set_update_subset_insert [of xs q "last xs"] by auto
  moreover have "set (butlast (xs[q := last xs])) \<subseteq> set (xs[q := last xs])"
    by (auto dest: in_set_butlastD)
  ultimately show ?thesis by blast
qed

lemma pairs_swap_last:
  assumes ev: "even (length l)" and q0: "2 * q0 + 1 < length l"
  shows "pairs (take (length l - 2)
                 ((l[2 * q0 := l ! (length l - 2)])[2 * q0 + 1 := l ! (length l - 1)]))
         = butlast ((pairs l)[q0 := last (pairs l)])"
proof (rule nth_equalityI)
  obtain h where h: "length l = 2 * h" using ev by (auto elim: evenE)
  have q0h: "q0 < h" using q0 h by simp
  define r where "r = take (length l - 2)
                 ((l[2 * q0 := l ! (length l - 2)])[2 * q0 + 1 := l ! (length l - 1)])"
  have lenr: "length r = 2 * (h - 1)" using h by (simp add: r_def)
  show "length (pairs (take (length l - 2)
                 ((l[2 * q0 := l ! (length l - 2)])[2 * q0 + 1 := l ! (length l - 1)])))
       = length (butlast ((pairs l)[q0 := last (pairs l)]))"
    unfolding r_def [symmetric] using lenr h by (simp add: length_pairs)
  fix p
  assume "p < length (pairs (take (length l - 2)
                 ((l[2 * q0 := l ! (length l - 2)])[2 * q0 + 1 := l ! (length l - 1)])))"
  then have p: "p < h - 1" unfolding r_def [symmetric] using lenr by (simp add: length_pairs)
  have ne: "pairs l \<noteq> []" using q0h h length_pairs [of l] by auto
  have lastp: "last (pairs l) = (l ! (2 * h - 2), l ! (2 * h - 1))"
  proof -
    have "last (pairs l) = pairs l ! (h - 1)"
      using ne h by (simp add: last_conv_nth length_pairs)
    also have "\<dots> = (l ! (2 * (h - 1)), l ! (2 * (h - 1) + 1))"
      using q0h h by (intro pairs_nth) simp
    also have "2 * (h - 1) = 2 * h - 2" by simp
    also have "2 * h - 2 + 1 = 2 * h - 1" using q0h by simp
    finally show ?thesis .
  qed
  have r0: "r ! (2 * p) = (if p = q0 then l ! (2 * h - 2) else l ! (2 * p))"
    using p h by (simp add: r_def nth_list_update)
  have r1: "r ! (2 * p + 1) = (if p = q0 then l ! (2 * h - 1) else l ! (2 * p + 1))"
    using p h by (simp add: r_def nth_list_update)
  have "pairs r ! p = (r ! (2 * p), r ! (2 * p + 1))"
    using p lenr by (intro pairs_nth) simp
  also have "\<dots> = (if p = q0 then last (pairs l) else pairs l ! p)"
    using r0 r1 lastp p h by (simp add: pairs_nth)
  also have "\<dots> = butlast ((pairs l)[q0 := last (pairs l)]) ! p"
    using p h by (simp add: nth_butlast length_pairs nth_list_update)
  finally show "pairs (take (length l - 2)
                 ((l[2 * q0 := l ! (length l - 2)])[2 * q0 + 1 := l ! (length l - 1)])) ! p
       = butlast ((pairs l)[q0 := last (pairs l)]) ! p"
    unfolding r_def .
qed

lemma removePair_loop_pairs:
  assumes "even (length l)" "odd i"
  shows "even (length (removePair_loop l j k i)) \<and>
         set (pairs (removePair_loop l j k i)) \<subseteq> set (pairs l) \<and>
         (\<forall>e \<in> set (pairs l). e \<noteq> (j, k) \<longrightarrow> e \<in> set (pairs (removePair_loop l j k i)))"
  using assms
proof (induction l j k i rule: removePair_loop.induct)
  case (1 l j k i)
  show ?case
  proof (cases "i < length l")
    case False
    then have eq: "removePair_loop l j k i = l"
      by (subst removePair_loop.simps) simp
    show ?thesis unfolding eq using "1.prems" by simp
  next
    case True
    show ?thesis
    proof (cases "l ! (i - 1) = j \<and> l ! i = k")
      case False
      then have eq: "removePair_loop l j k i = removePair_loop l j k (i + 2)"
        using True by (subst removePair_loop.simps) auto
      have "odd (i + 2)" using "1.prems"(2) by simp
      then show ?thesis unfolding eq using "1.IH" [OF True False "1.prems"(1)] by blast
    next
      case found: True
      obtain q0 where q0: "i = 2 * q0 + 1" using "1.prems"(2) by (auto elim: oddE)
      have i1: "i - 1 = 2 * q0" using q0 by simp
      define r where "r = take (length l - 2)
                 ((l[2 * q0 := l ! (length l - 2)])[2 * q0 + 1 := l ! (length l - 1)])"
      have "(l[2 * q0 := l ! (length l - 2)]) ! (length l - 1) = l ! (length l - 1)"
        using True q0 by simp
      then have eq: "removePair_loop l j k i = r"
        using True found unfolding q0
        by (subst removePair_loop.simps) (simp add: Let_def r_def)
      have pr: "pairs r = butlast ((pairs l)[q0 := last (pairs l)])"
        unfolding r_def using "1.prems"(1) True q0 by (intro pairs_swap_last) simp_all
      have q0l: "q0 < length (pairs l)" using True q0 by (simp add: length_pairs)
      have at: "pairs l ! q0 = (j, k)"
        using found q0 q0l by (simp add: pairs_nth length_pairs)
      have "even (length r)" using "1.prems"(1) by (simp add: r_def)
      moreover have "set (pairs r) \<subseteq> set (pairs l)"
        unfolding pr using q0l by (rule swap_last_subset)
      moreover have "\<forall>e \<in> set (pairs l). e \<noteq> (j, k) \<longrightarrow> e \<in> set (pairs r)"
        unfolding pr using swap_last_keeps [OF _ q0l] at by auto
      ultimately show ?thesis unfolding eq by blast
    qed
  qed
qed

lemma removePair_pairs:
  assumes "even (length l)"
  shows "even (length (removePair l j k))"
    and "set (pairs (removePair l j k)) \<subseteq> set (pairs l)"
    and "e \<in> set (pairs l) \<Longrightarrow> e \<noteq> (j, k) \<Longrightarrow> e \<in> set (pairs (removePair l j k))"
  using removePair_loop_pairs [OF assms, of 1 j k] by (auto simp: removePair_def)

lemma evenStars_nth: "evenStars ss \<Longrightarrow> i < length ss \<Longrightarrow> even (length (ss ! i))"
  by (simp add: evenStars_def)

lemma evenStars_update:
  "evenStars ss \<Longrightarrow> even (length st) \<Longrightarrow> evenStars (ss[i := st])"
  unfolding evenStars_def by (auto dest!: subsetD [OF set_update_subset_insert])

lemma pairs_append2: "even (length l) \<Longrightarrow> pairs (l @ [j, k]) = pairs l @ [(j, k)]"
  by (induction l rule: pairs.induct) simp_all

lemma removeFromStar_keeps:
  assumes "removeFromStar ss v j k = Some ss'" "evenStars ss"
  shows "evenStars ss'" "length ss' = length ss"
    and "registered ss w s t \<Longrightarrow> (w, s, t) \<noteq> (v, j, k) \<Longrightarrow> registered ss' w s t"
proof -
  from assms(1) have v: "0 \<le> v" "v < int (length ss)"
    and ss': "ss' = ss[nat v := removePair (ss ! nat v) j k]"
    by (auto simp: removeFromStar_def getStar_def split: if_splits)
  have ev: "even (length (ss ! nat v))" using assms(2) v by (simp add: evenStars_nth)
  show "evenStars ss'" unfolding ss'
    using assms(2) removePair_pairs(1) [OF ev] by (rule evenStars_update)
  show "length ss' = length ss" by (simp add: ss')
  assume r: "registered ss w s t" and ne: "(w, s, t) \<noteq> (v, j, k)"
  show "registered ss' w s t"
  proof (cases "w = v")
    case True
    then have "(s, t) \<noteq> (j, k)" using ne by simp
    moreover have "(s, t) \<in> set (pairs (ss ! nat v))" using r True by (simp add: registered_def)
    ultimately have "(s, t) \<in> set (pairs (removePair (ss ! nat v) j k))"
      using removePair_pairs(3) [OF ev] by blast
    then show ?thesis using True v by (simp add: registered_def ss')
  next
    case False
    moreover have "0 \<le> w" using r by (simp add: registered_def)
    ultimately have "nat w \<noteq> nat v" using v(1) by linarith
    then show ?thesis using r by (simp add: registered_def ss')
  qed
qed

lemma pushToStar_keeps:
  assumes "pushToStar ss v j k = Some ss'" "evenStars ss"
  shows "evenStars ss'" "length ss' = length ss" "registered ss' v j k"
    and "registered ss w s t \<Longrightarrow> registered ss' w s t"
proof -
  from assms(1) have v: "0 \<le> v" "v < int (length ss)"
    and ss': "ss' = ss[nat v := ss ! nat v @ [j, k]]"
    by (auto simp: pushToStar_def getStar_def split: if_splits)
  have ev: "even (length (ss ! nat v))" using assms(2) v by (simp add: evenStars_nth)
  show "evenStars ss'" unfolding ss'
    using assms(2) ev by (intro evenStars_update) simp_all
  show "length ss' = length ss" by (simp add: ss')
  show "registered ss' v j k" using v ev by (simp add: registered_def ss' pairs_append2)
  assume r: "registered ss w s t"
  show "registered ss' w s t"
  proof (cases "w = v")
    case True
    then show ?thesis using r v ev by (simp add: registered_def ss' pairs_append2)
  next
    case False
    moreover have "0 \<le> w" using r by (simp add: registered_def)
    ultimately have "nat w \<noteq> nat v" using v(1) by linarith
    then show ?thesis using r by (simp add: registered_def ss')
  qed
qed

lemma removeTriangle_keeps:
  assumes "removeTriangle T i j k = Some T'" "evenStars (stars T)"
  shows "evenStars (stars T')" "length (stars T') = length (stars T)" "edges T' = edges T"
    and "registered (stars T) w s t \<Longrightarrow> (w, s, t) \<noteq> (i, j, k) \<Longrightarrow> (w, s, t) \<noteq> (j, k, i)
         \<Longrightarrow> (w, s, t) \<noteq> (k, i, j) \<Longrightarrow> registered (stars T') w s t"
proof -
  from assms(1) obtain s1 s2 s3 where
    1: "removeFromStar (stars T) i j k = Some s1" and
    2: "removeFromStar s1 j k i = Some s2" and
    3: "removeFromStar s2 k i j = Some s3" and T': "T' = T\<lparr>stars := s3\<rparr>"
    by (auto simp: removeTriangle_def split: Option.bind_splits)
  note k1 = removeFromStar_keeps [OF 1 assms(2)]
  note k2 = removeFromStar_keeps [OF 2 k1(1)]
  note k3 = removeFromStar_keeps [OF 3 k2(1)]
  show "evenStars (stars T')" using k3(1) by (simp add: T')
  show "length (stars T') = length (stars T)" using k1(2) k2(2) k3(2) by (simp add: T')
  show "edges T' = edges T" by (simp add: T')
  assume "registered (stars T) w s t" "(w, s, t) \<noteq> (i, j, k)" "(w, s, t) \<noteq> (j, k, i)"
    "(w, s, t) \<noteq> (k, i, j)"
  then show "registered (stars T') w s t"
    using k1(3) k2(3) k3(3) by (simp add: T')
qed

lemma addTriangle_keeps:
  assumes "addTriangle T i j k = Some T'" "evenStars (stars T)"
  shows "evenStars (stars T')" "length (stars T') = length (stars T)" "edges T' = edges T"
    and "registered (stars T') i j k" "registered (stars T') j k i" "registered (stars T') k i j"
    and "registered (stars T) w s t \<Longrightarrow> registered (stars T') w s t"
proof -
  from assms(1) obtain s1 s2 s3 where
    1: "pushToStar (stars T) i j k = Some s1" and
    2: "pushToStar s1 j k i = Some s2" and
    3: "pushToStar s2 k i j = Some s3" and T': "T' = T\<lparr>stars := s3\<rparr>"
    by (auto simp: addTriangle_def split: Option.bind_splits)
  note k1 = pushToStar_keeps [OF 1 assms(2)]
  note k2 = pushToStar_keeps [OF 2 k1(1)]
  note k3 = pushToStar_keeps [OF 3 k2(1)]
  show "evenStars (stars T')" using k3(1) by (simp add: T')
  show "length (stars T') = length (stars T)" using k1(2) k2(2) k3(2) by (simp add: T')
  show "edges T' = edges T" by (simp add: T')
  show "registered (stars T') i j k" using k1(3) k2(4) k3(4) by (simp add: T')
  show "registered (stars T') j k i" using k2(3) k3(4) by (simp add: T')
  show "registered (stars T') k i j" using k3(3) by (simp add: T')
  assume "registered (stars T) w s t"
  then show "registered (stars T') w s t" using k1(4) k2(4) k3(4) by (simp add: T')
qed

lemma in_starTriangles: "(w, s, t) \<in> set (starTriangles T) \<longleftrightarrow> registered (stars T) w s t"
proof
  assume "(w, s, t) \<in> set (starTriangles T)"
  then show "registered (stars T) w s t"
    by (auto simp: starTriangles_def registered_def)
next
  assume r: "registered (stars T) w s t"
  then have "nat w < length (stars T)" "int (nat w) = w" "(s, t) \<in> set (pairs (stars T ! nat w))"
    by (auto simp: registered_def)
  then show "(w, s, t) \<in> set (starTriangles T)"
    unfolding starTriangles_def
    by (auto intro!: bexI [of _ "nat w"] image_eqI [of _ _ "(s, t)"])
qed

lemma hasEdge_iff: "hasEdge T u v \<longleftrightarrow> (\<exists>w s t. registered (stars T) w s t \<and> edgeOf (w, s, t) u v)"
  unfolding hasEdge_def using in_starTriangles by (metis prod_cases3)

lemma flip_keeps:
  assumes "flip T i j = Some T'" "evenStars (stars T)"
  shows "evenStars (stars T')" "length (stars T') = length (stars T)" "edges T' = edges T"
    and "hasEdge T u v \<Longrightarrow> (u, v) \<noteq> (i, j) \<Longrightarrow> (u, v) \<noteq> (j, i) \<Longrightarrow> hasEdge T' u v"
proof -
  from assms(1) obtain a b T1 T2 T3 where
    1: "removeTriangle T i j a = Some T1" and
    2: "removeTriangle T1 j i b = Some T2" and
    3: "addTriangle T2 i b a = Some T3" and
    4: "addTriangle T3 j a b = Some T'"
    by (auto simp: flip_def split: Option.bind_splits)
  note k1 = removeTriangle_keeps [OF 1 assms(2)]
  note k2 = removeTriangle_keeps [OF 2 k1(1)]
  note k3 = addTriangle_keeps [OF 3 k2(1)]
  note k4 = addTriangle_keeps [OF 4 k3(1)]
  show "evenStars (stars T')" by (rule k4(1))
  show "length (stars T') = length (stars T)" using k1(2) k2(2) k3(2) k4(2) by simp
  show "edges T' = edges T" using k1(3) k2(3) k3(3) k4(3) by simp
  assume he: "hasEdge T u v" and ne: "(u, v) \<noteq> (i, j)" "(u, v) \<noteq> (j, i)"
  from he obtain w s t where r: "registered (stars T) w s t" and e: "edgeOf (w, s, t) u v"
    unfolding hasEdge_iff by blast
  have new1: "registered (stars T') i b a" "registered (stars T') b a i" "registered (stars T') a i b"
    using k3(4,5,6) k4(7) by blast+
  have new2: "registered (stars T') j a b" "registered (stars T') a b j" "registered (stars T') b j a"
    using k4(4,5,6) by blast+
  show "hasEdge T' u v"
  proof (cases "(w, s, t) \<in> {(i, j, a), (j, a, i), (a, i, j), (j, i, b), (i, b, j), (b, j, i)}")
    case False
    then have "registered (stars T1) w s t" using k1(4) [OF r] by auto
    then have "registered (stars T2) w s t" using k2(4) False by auto
    then have "registered (stars T') w s t" using k3(7) k4(7) by blast
    then show ?thesis unfolding hasEdge_iff using e by blast
  next
    case True
    then have "edgeOf (i, b, a) u v \<or> edgeOf (j, a, b) u v"
      using e ne by (auto simp: edgeOf_def)
    then show ?thesis unfolding hasEdge_iff using new1(1) new2(1) by blast
  qed
qed

lemma isConstraint_sym: "isConstraint T a b = isConstraint T b a"
  by (simp add: isConstraint_def min.commute max.commute)

lemma isConstraint_min_max: "isConstraint T (min a b) (max a b) = isConstraint T a b"
  by (simp add: isConstraint_def)

lemma isConstraint_edges: "edges T' = edges T \<Longrightarrow> isConstraint T' a b = isConstraint T a b"
  by (simp add: isConstraint_def)

lemma stackOK_edges: "edges T' = edges T \<Longrightarrow> stackOK T' stack = stackOK T stack"
  by (simp add: stackOK_def isConstraint_def)

lemma stackOK_push: "stackOK T stack \<Longrightarrow> isConstraint T a b = Some False \<Longrightarrow> stackOK T (b # a # stack)"
  by (simp add: stackOK_def)

lemma stackOK_pop: "stackOK T (b # a # stack) \<Longrightarrow> stackOK T stack \<and> isConstraint T a b = Some False"
  by (simp add: stackOK_def)

lemma push_if_shape:
  assumes "(do { pa \<leftarrow> getPoint points a; pb \<leftarrow> getPoint points b; px \<leftarrow> getPoint points x;
                 py \<leftarrow> getPoint points y;
                 Some (if inCircle fl pa pb px py < 0 then b # a # stack else stack) }) = Some stack'"
  shows "stack' = stack \<or> stack' = b # a # stack"
  using assms by (auto split: Option.bind_splits if_splits)

lemma testFlip_shape:
  assumes "testFlip fl points T stack a b x = Some stack'"
  shows "stack' = stack \<or> (\<exists>a' b'. stack' = b' # a' # stack \<and> isConstraint T a' b' = Some False)"
proof -
  from assms obtain y where y: "opposite T a b = Some y"
    by (auto simp: testFlip_def split: Option.bind_splits)
  show ?thesis
  proof (cases "y < 0")
    case True
    then show ?thesis using assms y by (simp add: testFlip_def)
  next
    case False
    show ?thesis
    proof (cases "b < a")
      case True
      from assms y False True obtain con where con: "isConstraint T b a = Some con"
        by (auto simp: testFlip_def split: Option.bind_splits)
      show ?thesis
      proof (cases con)
        case True
        then show ?thesis using assms y False \<open>b < a\<close> con by (simp add: testFlip_def)
      next
        case nc: False
        have "stack' = stack \<or> stack' = a # b # stack"
          using assms y False \<open>b < a\<close> con nc
          by (intro push_if_shape [of points b a y x fl stack stack']) (simp add: testFlip_def)
        then show ?thesis using con nc by auto
      qed
    next
      case ge: False
      from assms y False ge obtain con where con: "isConstraint T a b = Some con"
        by (auto simp: testFlip_def split: Option.bind_splits)
      show ?thesis
      proof (cases con)
        case True
        then show ?thesis using assms y False ge con by (simp add: testFlip_def)
      next
        case nc: False
        have "stack' = stack \<or> stack' = b # a # stack"
          using assms y False ge con nc
          by (intro push_if_shape [of points a b x y fl stack stack']) (simp add: testFlip_def)
        then show ?thesis using con nc by auto
      qed
    qed
  qed
qed

lemma testFlip_stackOK:
  assumes "testFlip fl points T stack a b x = Some stack'" "stackOK T stack"
  shows "stackOK T stack'"
  using testFlip_shape [OF assms(1)] assms(2) by (auto simp: stackOK_push)

lemma refine_init_star_stackOK:
  "refine_init_star fl points T a star rest stack = Some stack' \<Longrightarrow> stackOK T stack \<Longrightarrow> stackOK T stack'"
proof (induction fl points T a star rest stack rule: refine_init_star.induct)
  case (1 fl points T a star x b rest stack)
  show ?case
  proof (cases "b < a")
    case True
    then show ?thesis using 1 by simp
  next
    case False
    from "1.prems"(1) False obtain con where con: "isConstraint T a b = Some con"
      by (auto split: Option.bind_splits)
    show ?thesis
    proof (cases con)
      case True
      then show ?thesis using 1 False con by simp
    next
      case nc: False
      show ?thesis
      proof (cases "next_scan star b < 0")
        case True
        then show ?thesis using 1 False con nc by (simp add: Let_def)
      next
        case y: False
        from "1.prems"(1) False con nc y obtain pa pb px py where
          p: "getPoint points a = Some pa" "getPoint points b = Some pb"
             "getPoint points x = Some px" "getPoint points (next_scan star b) = Some py"
          by (auto simp: Let_def split: Option.bind_splits)
        define st where "st = (if inCircle fl pa pb px py < 0 then b # a # stack else stack)"
        have run: "refine_init_star fl points T a star rest st = Some stack'"
          using "1.prems"(1) False con nc y p by (simp add: Let_def st_def)
        have "stackOK T st" using "1.prems"(2) con nc by (simp add: st_def stackOK_push)
        then show ?thesis
          using "1.IH"(4) [OF False con _ _ _ p(1) p(2) p(3) p(4) run [unfolded st_def]] nc y
          by (simp add: st_def)
      qed
    qed
  qed
qed simp_all

lemma refine_init_loop_stackOK:
  "refine_init_loop fl points T as stack = Some stack' \<Longrightarrow> stackOK T stack \<Longrightarrow> stackOK T stack'"
proof (induction as arbitrary: stack)
  case Nil
  then show ?case by simp
next
  case (Cons a as)
  from Cons.prems(1) obtain star st where
    "getStar (stars T) (int a) = Some star"
    "refine_init_star fl points T (int a) star star stack = Some st"
    "refine_init_loop fl points T as st = Some stack'"
    by (auto split: Option.bind_splits)
  then show ?case using Cons.IH Cons.prems(2) refine_init_star_stackOK by blast
qed

lemma refine_init_stackOK: "refine_init fl points T = Some stack \<Longrightarrow> stackOK T stack"
  unfolding refine_init_def using refine_init_loop_stackOK [of fl points T _ "[]" stack]
  by (simp add: stackOK_def)

lemma refine_step_inv:
  assumes step: "refine_step fl points T a b rest = Some (T', stack')"
    and inv: "refineInv T0 T (b # a # rest)"
  shows "refineInv T0 T' stack'"
proof -
  from inv have ed: "edges T = edges T0" and ev: "evenStars (stars T)"
    and ok: "stackOK T rest" and nc: "isConstraint T a b = Some False"
    and kc: "keepsConstraints T0 T"
    using stackOK_pop [of T b a rest] by (auto simp: refineInv_def)
  from step obtain go x y where ft: "flip_test fl points T a b = Some (go, x, y)"
    by (auto simp: refine_step_def split: Option.bind_splits)
  show ?thesis
  proof (cases go)
    case False
    then have "T' = T" "stack' = rest" using step ft by (simp_all add: refine_step_def)
    then show ?thesis using ed ev ok kc by (simp add: refineInv_def)
  next
    case True
    from step ft True obtain T1 s1 s2 s3 where
      fp: "flip T a b = Some T1" and
      t1: "testFlip fl points T1 rest x a y = Some s1" and
      t2: "testFlip fl points T1 s1 a y x = Some s2" and
      t3: "testFlip fl points T1 s2 y b x = Some s3" and
      t4: "testFlip fl points T1 s3 b x y = Some stack'" and T': "T' = T1"
      by (auto simp: refine_step_def split: Option.bind_splits)
    note fk = flip_keeps [OF fp ev]
    have o0: "stackOK T1 rest" using ok stackOK_edges [OF fk(3), of rest] by simp
    note o1 = testFlip_stackOK [OF t1 o0]
    note o2 = testFlip_stackOK [OF t2 o1]
    note o3 = testFlip_stackOK [OF t3 o2]
    note ok' = testFlip_stackOK [OF t4 o3]
    have "keepsConstraints T0 T1"
      unfolding keepsConstraints_def
    proof (intro allI impI)
      fix u v assume c: "isConstraint T0 u v = Some True \<and> hasEdge T0 u v"
      then have he: "hasEdge T u v" using kc by (simp add: keepsConstraints_def)
      have cu: "isConstraint T u v = Some True" using c ed by (simp add: isConstraint_def)
      have "(u, v) \<noteq> (a, b)" using cu nc by auto
      moreover have "(u, v) \<noteq> (b, a)" using cu nc isConstraint_sym [of T a b] by auto
      ultimately show "hasEdge T1 u v" using fk(4) he by blast
    qed
    then show ?thesis using ed fk(1,3) ok' by (simp add: refineInv_def T')
  qed
qed

lemma refine_reach_inv:
  assumes "refine_reach fl points T0 T stack" "evenStars (stars T0)"
  shows "refineInv T0 T stack"
  using assms
proof (induction rule: refine_reach.induct)
  case (start stack)
  then show ?case
    by (simp add: refineInv_def refine_init_stackOK keepsConstraints_def)
next
  case (step T b a rest T' stack')
  then show ?case using refine_step_inv by blast
qed

lemma refine_loop_reach:
  assumes run: "refine_loop fl points T stack = Some T'"
  shows "refine_reach fl points T0 T stack \<longrightarrow> refine_reach fl points T0 T' []"
proof (rule refine_loop.raw_induct
    [where P = "\<lambda>fl points T stack T'. refine_reach fl points T0 T stack \<longrightarrow> refine_reach fl points T0 T' []",
      OF _ run])
  fix loop :: "rounding \<Rightarrow> Point list \<Rightarrow> Triangulation \<Rightarrow> int list \<Rightarrow> Triangulation option"
  fix fl points T stack T'
  assume IH: "\<And>fl points T stack T'. loop fl points T stack = Some T' \<Longrightarrow>
      refine_reach fl points T0 T stack \<longrightarrow> refine_reach fl points T0 T' []"
  assume body: "(if stack = [] then Some T
      else do { (a, b, rest) \<leftarrow> pop2 stack;
                (T', stack') \<leftarrow> refine_step fl points T a b rest;
                loop fl points T' stack' }) = Some T'"
  show "refine_reach fl points T0 T stack \<longrightarrow> refine_reach fl points T0 T' []"
  proof
    assume r: "refine_reach fl points T0 T stack"
    show "refine_reach fl points T0 T' []"
    proof (cases "stack = []")
      case True
      then show ?thesis using body r by simp
    next
      case False
      from body False obtain a b rest T1 s1 where
        p: "pop2 stack = Some (a, b, rest)" and
        st: "refine_step fl points T a b rest = Some (T1, s1)" and
        lp: "loop fl points T1 s1 = Some T'"
        by (auto split: Option.bind_splits)
      from p have "stack = b # a # rest" by (cases stack rule: pop2.cases) auto
      then have "refine_reach fl points T0 T1 s1" using r st refine_reach.step by blast
      then show ?thesis using IH [OF lp] by blast
    qed
  qed
qed


text \<open>
  Claim C1. Let \<open>delaunayRefine\<close> be called on a triangulation \<open>T0\<close> whose stars have even
  length (as every triangulation built by the constructor and \<open>addTriangle\<close> has). At every
  state \<open>(T, stack)\<close> at the head of its main loop, the edge \<open>(a, b)\<close> about to be popped is
  not a constraint, \<open>isConstraint (min a b) (max a b)\<close> is false, in particular when the
  iteration goes on to flip it; and every constraint edge that is present in \<open>T0\<close> is present
  in \<open>T\<close>. So when \<open>delaunayRefine\<close> returns, every constraint edge that was present before
  is present in the triangulation it leaves.
\<close>

theorem delaunayRefine_keeps_constraints:
  assumes "evenStars (stars T0)"
  shows "(refine_reach fl points T0 T stack \<longrightarrow>
            (\<forall>a b rest x y. stack = b # a # rest \<and> flip_test fl points T a b = Some (True, x, y)
                \<longrightarrow> isConstraint T (min a b) (max a b) = Some False)
            \<and> keepsConstraints T0 T)
         \<and> (delaunayRefine fl points T0 = Some T' \<longrightarrow> keepsConstraints T0 T')"
proof (intro conjI impI allI)
  fix a b rest x y
  assume r: "refine_reach fl points T0 T stack"
    and s: "stack = b # a # rest \<and> flip_test fl points T a b = Some (True, x, y)"
  have "refineInv T0 T (b # a # rest)" using refine_reach_inv [OF r assms] s by simp
  then have "isConstraint T a b = Some False"
    using stackOK_pop [of T b a rest] by (simp add: refineInv_def)
  then show "isConstraint T (min a b) (max a b) = Some False"
    by (simp only: isConstraint_min_max)
next
  assume r: "refine_reach fl points T0 T stack"
  show "keepsConstraints T0 T" using refine_reach_inv [OF r assms] by (simp add: refineInv_def)
next
  assume d: "delaunayRefine fl points T0 = Some T'"
  then obtain stack0 where i: "refine_init fl points T0 = Some stack0"
    and l: "refine_loop fl points T0 stack0 = Some T'"
    by (auto simp: delaunayRefine_def split: Option.bind_splits)
  have "refine_reach fl points T0 T0 stack0" using i by (rule refine_reach.start)
  then have "refine_reach fl points T0 T' []" using refine_loop_reach [OF l] by blast
  then show "keepsConstraints T0 T'" using refine_reach_inv [OF _ assms] by (simp add: refineInv_def)
qed

text \<open>
  The four points \<open>(0, 0)\<close>, \<open>(1, 4)\<close>, \<open>(1, -4)\<close>, \<open>(2, 0)\<close> with the constraint edge
  \<open>(0, 1)\<close>, as the sweep triangulates them: the first phase pushes the edge \<open>(1, 2)\<close>, the
  main loop flips it into \<open>(0, 3)\<close>, and the constraint edge \<open>(0, 1)\<close> stays.
\<close>

theorem delaunayRefine_keeps_constraints_witness:
  "evenStars (stars \<lparr>stars = [[2, 1], [0, 2, 2, 3], [1, 0, 3, 1], [1, 2]], edges = [(0, 1)]\<rparr>)
   \<and> refine_reach exact [(0, 0), (1, 4), (1, - 4), (2, 0)]
        \<lparr>stars = [[2, 1], [0, 2, 2, 3], [1, 0, 3, 1], [1, 2]], edges = [(0, 1)]\<rparr>
        \<lparr>stars = [[2, 1], [0, 2, 2, 3], [1, 0, 3, 1], [1, 2]], edges = [(0, 1)]\<rparr> [2, 1]
   \<and> flip_test exact [(0, 0), (1, 4), (1, - 4), (2, 0)]
        \<lparr>stars = [[2, 1], [0, 2, 2, 3], [1, 0, 3, 1], [1, 2]], edges = [(0, 1)]\<rparr> 1 2
        = Some (True, 0, 3)
   \<and> isConstraint \<lparr>stars = [[2, 1], [0, 2, 2, 3], [1, 0, 3, 1], [1, 2]], edges = [(0, 1)]\<rparr>
        (min 1 2) (max 1 2) = Some False
   \<and> delaunayRefine exact [(0, 0), (1, 4), (1, - 4), (2, 0)]
        \<lparr>stars = [[2, 1], [0, 2, 2, 3], [1, 0, 3, 1], [1, 2]], edges = [(0, 1)]\<rparr>
        = Some \<lparr>stars = [[3, 1, 2, 3], [0, 3], [3, 0], [1, 0, 0, 2]], edges = [(0, 1)]\<rparr>
   \<and> isConstraint \<lparr>stars = [[2, 1], [0, 2, 2, 3], [1, 0, 3, 1], [1, 2]], edges = [(0, 1)]\<rparr>
        0 1 = Some True
   \<and> hasEdge \<lparr>stars = [[2, 1], [0, 2, 2, 3], [1, 0, 3, 1], [1, 2]], edges = [(0, 1)]\<rparr> 0 1
   \<and> hasEdge \<lparr>stars = [[3, 1, 2, 3], [0, 3], [3, 0], [1, 0, 0, 2]], edges = [(0, 1)]\<rparr> 0 1"
proof -
  define ps :: "Point list" where "ps = [(0, 0), (1, 4), (1, - 4), (2, 0)]"
  define A where "A = \<lparr>stars = [[2, 1], [0, 2, 2, 3], [1, 0, 3, 1], [1, 2]], edges = [(0, 1)]\<rparr>"
  define B where "B = \<lparr>stars = [[3, 1, 2, 3], [0, 3], [3, 0], [1, 0, 0, 2]], edges = [(0, 1)]\<rparr>"
  have ev: "evenStars (stars A)" by (simp add: A_def evenStars_def)
  have init: "refine_init exact ps A = Some [2, 1]" unfolding ps_def A_def by code_simp
  have ft: "flip_test exact ps A 1 2 = Some (True, 0, 3)" unfolding ps_def A_def by code_simp
  have run: "delaunayRefine exact ps A = Some B" unfolding ps_def A_def B_def by code_simp
  have con: "isConstraint A 0 1 = Some True" unfolding A_def by code_simp
  have he: "hasEdge A 0 1" unfolding A_def by code_simp
  have reach: "refine_reach exact ps A A [2, 1]" using init by (rule refine_reach.start)
  note main = delaunayRefine_keeps_constraints [OF ev, of exact ps A "[2, 1]" B]
  have nc: "isConstraint A (min 1 2) (max 1 2) = Some False"
    using main reach ft by blast
  have "keepsConstraints A B" using main run by blast
  then have "hasEdge B 0 1" using con he unfolding keepsConstraints_def by blast
  then show ?thesis
    using ev reach ft nc run con he unfolding ps_def A_def B_def by blast
qed

section \<open>The triangulation structure\<close>

lemma cells_star_min: "(i', s, t) \<in> set (cells_star i l) \<Longrightarrow> i' = i \<and> i < s \<and> i < t"
  by (induction i l rule: cells_star.induct) (auto split: if_splits)

text \<open>
  Claim C9. Every triple \<open>(i, s, t)\<close> returned by \<open>cells\<close> has its first component strictly
  smaller than both of the other two, for every state of the stars array.
\<close>

theorem cells_min_first: "(i, s, t) \<in> set (cells T) \<Longrightarrow> i < s \<and> i < t"
  unfolding cells_def by (auto dest: cells_star_min)

theorem cells_min_first_witness:
  "cells \<lparr>stars = [[1, 2, 3, 1], [2, 0, 0, 3], [0, 1], [1, 0]], edges = []\<rparr> = [(0, 1, 2), (0, 3, 1)]
   \<and> (0, 3, 1) \<in> set (cells \<lparr>stars = [[1, 2, 3, 1], [2, 0, 0, 3], [0, 1], [1, 0]], edges = []\<rparr>)
   \<and> (0::int) < 3 \<and> (0::int) < 1"
  using cells_min_first [of 0 3 1 "\<lparr>stars = [[1, 2, 3, 1], [2, 0, 0, 3], [0, 1], [1, 0]], edges = []\<rparr>"]
  by (simp add: cells_def upt_conv_Cons)

section \<open>The main function\<close>

text \<open>
  Claim C5. \<open>cdt2d\<close> returns the empty triangle list, without failure, whenever the point
  list is empty and whenever the options \<open>interior\<close> and \<open>exterior\<close> are both \<open>false\<close>,
  whatever the edges are: no later stage decides the result.
\<close>

theorem cdt2d_fast_paths:
  "points = [] \<or> (\<exists>opts. options_arg = Some opts \<and> interior opts = Some False
                       \<and> exterior opts = Some False)
   \<Longrightarrow> cdt2d fl points edges_arg options_arg = Some []"
  unfolding cdt2d_def by (auto simp: Let_def)

text \<open>
  Both fast paths at inputs on which the sweep itself would throw (the edge names no point).
\<close>

theorem cdt2d_fast_paths_witness:
  "monotoneTriangulate exact [] [(5, 7)] = None
   \<and> cdt2d exact [] (Some [(5, 7)]) None = Some []
   \<and> monotoneTriangulate exact [(0, 0)] [(5, 7)] = None
   \<and> cdt2d exact [(0, 0)] (Some [(5, 7)])
        (Some \<lparr>delaunay = None, interior = Some False, exterior = Some False\<rparr>) = Some []"
  using cdt2d_fast_paths [of "[]" None exact "Some [(5, 7)]"]
    cdt2d_fast_paths [of "[(0, 0)]"
      "Some \<lparr>delaunay = None, interior = Some False, exterior = Some False\<rparr>" exact
      "Some [(5, 7)]"]
  by (simp add: monotoneTriangulate_def edgeEvents_def getPoint_def)

section \<open>The indices of the output triangles\<close>

subsection \<open>The sweep\<close>


























subsection \<open>The triangulation structure and the refinement\<close>

















subsection \<open>Classification and the main function\<close>








text \<open>The definitions a run of the program on concrete input unfolds.\<close>

lemmas sweep_defs = monotoneTriangulate_def pointEvents_def sort_cmp_def compareEvent_def js_or_def
  EVENT_POINT_def EVENT_START_def EVENT_END_def processEvent_def addPoint_def
  bsearchLt_def bsearchGt_def bsearchLt_loop.simps bsearchGt_loop.simps ushr1_def testPoint_def
  addPoint_loop.simps getHull_def addPoint_hull_def addPoint_lower.simps addPoint_upper.simps
  getPoint_def orient2d_def fsub_def fmul_def fadd_def edgeEvents_def splitHulls_def mergeHulls_def
  bsearchLe_def bsearchLe_loop.simps findSplit_def

lemmas refine_defs = newTriangulation_def addTriangle_def pushToStar_def getStar_def
  delaunayRefine_def refine_init_def isConstraint_def bsearchEq_def bsearchEq_loop.simps
  compareLex_def testFlip_def opposite_def flip_def removeTriangle_def removeFromStar_def
  removePair_def removePair_loop.simps flip_test_def refine_step_def refine_loop.simps
  inCircle_def

lemmas classify_defs = classifyFaces_def indexCells_def indexCells_edge_def locateCell_def
  compareCell_def canonicalCell_def cellVertex_def classify_loop.simps classify_active.simps
  cells_def canonicalizeEdges_def canonicalizeEdge_def

lemma upt_0_3: "[0..<3] = [0, 1, 2]"
  by (simp add: upt_conv_Cons)



section \<open>Constraint edges and the options interior and exterior\<close>

text \<open>
  A planar input with a single constraint edge, the diagonal from \<open>(0, 0)\<close> to \<open>(2, 2)\<close>:
  with the option \<open>exterior\<close> off no triangle is returned, so the constraint edge is an edge
  of no output triangle.
\<close>

lemma cdt2d_exterior_off_example:
  "cdt2d exact [(0, 0), (1, 0), (0, 1), (2, 2)] (Some [(0, 3)])
      (Some \<lparr>delaunay = None, interior = None, exterior = Some False\<rparr>) = Some []"
  by (simp add: cdt2d_def sweep_defs refine_defs classify_defs exact_def Let_def upt_0_3
      cong: Let_weak_cong bind_weak_cong)

text \<open>
  A square with a triangular hole, both rings given as constraint edges: with the option
  \<open>interior\<close> off the only triangle returned is the hole, and the four edges of the square
  are edges of no output triangle.
\<close>

lemma cdt2d_interior_off_example:
  "cdt2d exact [(0, 0), (4, 0), (4, 4), (0, 4), (1, 1), (3, 1), (2, 3)]
      (Some [(0, 1), (1, 2), (2, 3), (3, 0), (4, 5), (5, 6), (6, 4)])
      (Some \<lparr>delaunay = None, interior = Some False, exterior = None\<rparr>) = Some [(4, 5, 6)]"
  by (simp add: cdt2d_def sweep_defs refine_defs classify_defs exact_def Let_def upt_0_3
      cong: Let_weak_cong bind_weak_cong)

end
